theory Spec2Isabelle
  imports Main
begin

section \<open>Concurrency limiter (app/routes/app._index.jsx, parallelLimit)\<close>

text \<open>
  \<^verbatim>\<open>
  async function parallelLimit(tasks, limit) {
    const results = [];
    let i = 0;
    async function next() {
      if (i >= tasks.length) return;
      const idx = i++;
      results[idx] = await tasks[idx]();
      await next();
    }
    await Promise.all(Array(Math.min(limit, tasks.length)).fill(0).map(next));
    return results;
  }
  \<close>
  A task is an asynchronous thunk. What the limiter sees of it is how its promise
  settles, so a task is modelled by its settlement. The order in which the started
  tasks settle is not decided by the limiter: it is a parameter \<open>sched\<close>, read at
  every event to pick one of the tasks that are in flight.
\<close>

datatype 'a settled = Fulfilled 'a | Rejected string

text \<open>
  The closure state of \<open>parallelLimit\<close>: the array \<open>results\<close> (a JavaScript array,
  \<open>None\<close> is a hole), the counter \<open>i\<close>, and the indices of the tasks that were started
  and whose \<open>await\<close> has not resumed yet, in the order in which they were started.
\<close>

record 'a limiter =
  pl_results :: "'a option list"
  pl_i :: nat
  pl_pending :: "nat list"

text \<open>\<open>results[idx] = v\<close>: writing past the end of a JavaScript array extends it with holes.\<close>

definition array_set :: "'a option list \<Rightarrow> nat \<Rightarrow> 'a \<Rightarrow> 'a option list" where
  "array_set xs idx v =
     (if idx < length xs then xs[idx := Some v]
      else xs @ replicate (idx - length xs) None @ [Some v])"

text \<open>
  \<open>next()\<close> up to its first \<open>await\<close>: return when no task is left, otherwise take
  \<open>idx = i++\<close> and call \<open>tasks[idx]()\<close>, which starts the task.
\<close>

definition next_task :: "'a settled list \<Rightarrow> 'a limiter \<Rightarrow> 'a limiter" where
  "next_task tasks st =
     (if pl_i st \<ge> length tasks then st
      else st\<lparr>pl_i := pl_i st + 1, pl_pending := pl_pending st @ [pl_i st]\<rparr>)"

text \<open>
  The continuation of \<open>next()\<close> when task \<open>idx\<close> settles: a rejection is thrown out of
  the worker (and \<open>Promise.all\<close> rejects with it); a value is stored at \<open>results[idx]\<close>
  and \<open>next()\<close> is called again.
\<close>

definition resume :: "'a settled list \<Rightarrow> nat \<Rightarrow> 'a limiter \<Rightarrow> string + 'a limiter" where
  "resume tasks idx st =
     (case tasks ! idx of
        Rejected e \<Rightarrow> Inl e
      | Fulfilled v \<Rightarrow>
          Inr (next_task tasks
                (st\<lparr>pl_results := array_set (pl_results st) idx v,
                    pl_pending := remove1 idx (pl_pending st)\<rparr>)))"

definition chosen :: "(nat \<Rightarrow> nat) \<Rightarrow> nat \<Rightarrow> 'a limiter \<Rightarrow> nat" where
  "chosen sched t st = pl_pending st ! (sched t mod length (pl_pending st))"

text \<open>
  The event loop from the moment the workers are started: while a task is in flight,
  one of them (the scheduler's choice at event \<open>t\<close>) settles and its worker resumes.
  \<open>Promise.all\<close> resolves when every worker has returned, that is when nothing is in
  flight. The first component lists the limiter's state at every instant, in order;
  the second is what \<open>parallelLimit\<close> returns (\<open>Inr results\<close>) or throws (\<open>Inl\<close>).
\<close>

function drive ::
  "(nat \<Rightarrow> nat) \<Rightarrow> nat \<Rightarrow> 'a settled list \<Rightarrow> 'a limiter
     \<Rightarrow> 'a limiter list \<times> (string + 'a option list)" where
  "drive sched t tasks st =
     (if pl_pending st = [] then ([st], Inr (pl_results st))
      else case resume tasks (chosen sched t st) st of
             Inl e \<Rightarrow> ([st], Inl e)
           | Inr st' \<Rightarrow>
               (case drive sched (Suc t) tasks st' of
                  (seen, outcome) \<Rightarrow> (st # seen, outcome)))"
  by pat_completeness auto
termination
proof (relation "measure (\<lambda>(sched, t, tasks, st). (length tasks - pl_i st) + length (pl_pending st))")
  show "wf (measure (\<lambda>(sched, t, tasks, st). (length tasks - pl_i st) + length (pl_pending st)))"
    by simp
next
  fix sched :: "nat \<Rightarrow> nat" and t :: nat and tasks :: "'a settled list"
    and st st' :: "'a limiter"
  assume ne: "pl_pending st \<noteq> []"
    and r: "resume tasks (chosen sched t st) st = Inr st'"
  have mem: "chosen sched t st \<in> set (pl_pending st)"
    using ne by (simp add: chosen_def)
  then have len: "length (remove1 (chosen sched t st) (pl_pending st)) = length (pl_pending st) - 1"
    by (simp add: length_remove1)
  have pos: "0 < length (pl_pending st)" using ne by simp
  from r len pos
  show "((sched, Suc t, tasks, st'), (sched, t, tasks, st))
        \<in> measure (\<lambda>(sched, t, tasks, st). (length tasks - pl_i st) + length (pl_pending st))"
    by (auto simp: resume_def next_task_def split: settled.splits if_splits)
qed

text \<open>
  \<open>Array(Math.min(limit, tasks.length)).fill(0).map(next)\<close> calls \<open>next\<close> that many
  times, each call running to its first \<open>await\<close>; then the event loop takes over.
\<close>

definition parallelLimit ::
  "(nat \<Rightarrow> nat) \<Rightarrow> 'a settled list \<Rightarrow> nat \<Rightarrow> 'a limiter list \<times> (string + 'a option list)" where
  "parallelLimit sched tasks limit =
     drive sched 0 tasks
       ((next_task tasks ^^ min limit (length tasks))
          \<lparr>pl_results = [], pl_i = 0, pl_pending = []\<rparr>)"


section \<open>JavaScript values and helpers used by both files\<close>

text \<open>
  The scalars that occur in payloads and in stored snapshots. Numbers are the integers
  (identifiers and quantities of the shop, all far below \<open>2^53\<close>); \<open>JNaN\<close> is what
  \<open>parseInt\<close> gives on text without a leading numeral.
\<close>

datatype js_value = JNumber int | JNaN | JString string | JNull

text \<open>
  A reading of the clock. \<open>new Date().toISOString()\<close> turns it into a string that is never
  empty, so a member that holds one is truthy.
\<close>

type_synonym instant = nat

text \<open>A thrown value, with its \<open>message\<close>.\<close>

datatype js_error = TypeError string | SyntaxError string | Error string

fun message :: "js_error \<Rightarrow> string" where
  "message (TypeError m) = m"
| "message (SyntaxError m) = m"
| "message (Error m) = m"

text \<open>
  What \<open>await admin.graphql(...)\<close> followed by \<open>await response.json()\<close> gives: either
  a rejection (transport failure), or the body with its optional \<open>errors\<close> member (the
  messages) and its \<open>data\<close> member (\<open>None\<close> when null or when the queried object is null).
\<close>

datatype 'a graphql = Rejects string | Json "string list option" "'a option"

definition digit_char :: "nat \<Rightarrow> char" where
  "digit_char d = ''0123456789'' ! d"

fun show_nat :: "nat \<Rightarrow> string" where
  "show_nat n = (if n < 10 then [digit_char n] else show_nat (n div 10) @ [digit_char (n mod 10)])"

declare show_nat.simps [simp del]

definition show_int :: "int \<Rightarrow> string" where
  "show_int k = (if k < 0 then CHR ''-'' # show_nat (nat (- k)) else show_nat (nat k))"

text \<open>\<open>xs.join(', ')\<close> and \<open>s.split('/').pop()\<close>.\<close>

fun join :: "string \<Rightarrow> string list \<Rightarrow> string" where
  "join sep [] = []"
| "join sep [x] = x"
| "join sep (x # y # ys) = x @ sep @ join sep (y # ys)"

definition split_pop :: "string \<Rightarrow> string" where
  "split_pop s = rev (takeWhile (\<lambda>c. c \<noteq> CHR ''/'') (rev s))"

text \<open>
  \<open>parseInt\<close> is a builtin, not code of the repository: both programs take it as part of
  their environment. \<open>parse_int\<close> is the type of \<open>v \<mapsto> parseInt(v, 10)\<close>: \<open>None\<close> is \<open>NaN\<close>,
  \<open>Some n\<close> the whole number it returns. (On a number, \<open>parseInt(v)\<close> without radix is the
  same function.)
\<close>

type_synonym parse_int = "js_value \<Rightarrow> int option"

text \<open>One entry of the \<open>locations\<close> array of a snapshot, and one inventory level of a query.\<close>

record location_record =
  loc_id :: js_value
  loc_name :: string
  loc_available :: int
  loc_updatedAt :: instant

record level =
  quantities :: "int option list"
  location_gid :: string
  location_name :: string

text \<open>\<open>parseInt(locationGid.split('/').pop(), 10)\<close>.\<close>

definition location_number :: "parse_int \<Rightarrow> string \<Rightarrow> js_value" where
  "location_number parseInt10 gid =
     (case parseInt10 (JString (split_pop gid)) of None \<Rightarrow> JNaN | Some n \<Rightarrow> JNumber n)"


section \<open>Full synchronisation (app/routes/app._index.jsx)\<close>

subsection \<open>Data\<close>

type_synonym user_error = "string \<times> string"

text \<open>A node of the \<open>productVariants\<close> page: \<open>id\<close> and \<open>inventoryItem { id }\<close> (or null).\<close>

record variant =
  variant_id :: string
  inventoryItem :: "string option"

record page =
  edges :: "variant list"
  hasNextPage :: bool
  endCursor :: "string option"

text \<open>What a task returns, and what is pushed on \<open>errors\<close>.\<close>

datatype task_result =
    Success string
  | UserError string "user_error list"
  | ApiError string string

datatype error_info =
    UserErrorInfo string "user_error list"
  | ApiErrorInfo string string
  | BatchErrorInfo nat string

fun is_batchError :: "error_info \<Rightarrow> bool" where
  "is_batchError (BatchErrorInfo b m) = True"
| "is_batchError (UserErrorInfo v es) = False"
| "is_batchError (ApiErrorInfo v m) = False"

text \<open>
  The two shapes of \<open>summary\<close>: \<open>{success: true, processedVariants, totalVariants,
  batchCount, message}\<close> and \<open>{success: false, error, message}\<close>.
\<close>

record summary =
  success :: bool
  sum_processedVariants :: "nat option"
  sum_totalVariants :: "nat option"
  sum_batchCount :: "nat option"
  sum_error :: "string option"
  sum_message :: string

text \<open>\<open>serverState.variantUpdateProgress\<close>; a member that was never assigned is \<open>None\<close> or \<open>False\<close>.\<close>

record progress =
  processedVariants :: nat
  totalVariants :: nat
  isProcessing :: bool
  currentBatch :: nat
  errors :: "error_info list"
  startedAt :: "instant option"
  completedAt :: "instant option"
  summary :: "summary option"
  summaryReturned :: bool

text \<open>
  \<open>serverState\<close>: the progress object and \<open>backgroundProcessing.isRunning\<close>. The
  member \<open>observed\<close> is not a variable of the program: it lists, in program order,
  every value the progress object has taken, which is what a status query arriving at
  any instant can read.
\<close>

record server_state =
  variantUpdateProgress :: progress
  isRunning :: bool
  observed :: "progress list"

definition assign :: "(progress \<Rightarrow> progress) \<Rightarrow> server_state \<Rightarrow> server_state" where
  "assign f st =
     st\<lparr>variantUpdateProgress := f (variantUpdateProgress st),
        observed := observed st @ [f (variantUpdateProgress st)]\<rparr>"

text \<open>
  The shop as the run sees it through \<open>admin.graphql\<close>: the answer to the count query,
  to the page query (by call number, page size and cursor), to the inventory-levels
  query (by inventory item) and to the metafield write (by owner and written snapshot);
  the order in which the tasks of a batch settle; the builtin \<open>parseInt\<close>; and the readings
  of the clock.
\<close>

record shop =
  count_response :: "nat graphql"
  variants_response :: "nat \<Rightarrow> nat \<Rightarrow> string option \<Rightarrow> page graphql"
  inventory_response :: "string \<Rightarrow> level list graphql"
  metafieldsSet_response :: "string \<Rightarrow> location_record list \<Rightarrow> user_error list graphql"
  task_order :: "nat \<Rightarrow> nat \<Rightarrow> nat"
  shop_parseInt :: parse_int
  time_reset :: instant
  time_started :: instant
  time_task :: "string \<Rightarrow> instant"
  time_completed :: instant

text \<open>
  The local variables of \<open>processVariantsInBackground\<close> together with the server state.
  \<open>admitted\<close> is bookkeeping of the model: the number of tasks the limiter has started
  so far in this run.
\<close>

record run_locals =
  l_hasNextPage :: bool
  l_cursor :: "string option"
  l_processedVariants :: nat
  l_errors :: "error_info list"
  l_batchCount :: nat
  l_totalVariants :: nat
  server :: server_state
  admitted :: nat

record run_result =
  r_success :: bool
  r_processedVariants :: nat
  r_totalVariants :: nat
  r_batchCount :: nat
  r_errors :: "error_info list"

definition BATCH_SIZE :: nat where "BATCH_SIZE = 50"
definition CONCURRENCY_LIMIT :: nat where "CONCURRENCY_LIMIT = 5"

subsection \<open>One task (lines 168 to 276)\<close>

text \<open>
  Step 2b: \<open>{id: parseInt(gid.split('/').pop(), 10), name, available:
  quantities[0]?.quantity || 0, updatedAt: now}\<close>.
\<close>

definition format_level :: "parse_int \<Rightarrow> instant \<Rightarrow> level \<Rightarrow> location_record" where
  "format_level parseInt10 now l =
     \<lparr>loc_id = location_number parseInt10 (location_gid l),
      loc_name = location_name l,
      loc_available = (case quantities l of [] \<Rightarrow> 0 | q # _ \<Rightarrow> (case q of None \<Rightarrow> 0 | Some n \<Rightarrow> n)),
      loc_updatedAt = now\<rparr>"

text \<open>
  The whole body of a task is inside \<open>try\<close>, and its \<open>catch\<close> returns an \<open>apiError\<close>
  result: reading \<open>variant.inventoryItem.id\<close> of a variant without inventory item, a
  rejected request and an \<open>errors\<close> member all end there. The write answers with user
  errors, or not.
\<close>

definition process_variant :: "shop \<Rightarrow> variant \<Rightarrow> task_result" where
  "process_variant w v =
     (case inventoryItem v of
        None \<Rightarrow> ApiError (variant_id v) ''Cannot read properties of null (reading 'id')''
      | Some item \<Rightarrow>
          (case inventory_response w item of
             Rejects m \<Rightarrow> ApiError (variant_id v) m
           | Json (Some errs) d \<Rightarrow> ApiError (variant_id v) (join '', '' errs)
           | Json None None \<Rightarrow>
               ApiError (variant_id v) ''Cannot read properties of null (reading 'inventoryLevels')''
           | Json None (Some levels) \<Rightarrow>
               (case metafieldsSet_response w (variant_id v)
                       (map (format_level (shop_parseInt w) (time_task w (variant_id v))) levels) of
                  Rejects m \<Rightarrow> ApiError (variant_id v) m
                | Json (Some errs) d \<Rightarrow> ApiError (variant_id v) (join '', '' errs)
                | Json None None \<Rightarrow> Success (variant_id v)
                | Json None (Some ues) \<Rightarrow>
                    if length ues > 0 then UserError (variant_id v) ues
                    else Success (variant_id v))))"

text \<open>\<open>variants.map(variant => async () => {...})\<close>: one task for each node of the page.\<close>

definition variantPromises :: "shop \<Rightarrow> variant list \<Rightarrow> task_result settled list" where
  "variantPromises w variants = map (\<lambda>v. Fulfilled (process_variant w v)) variants"

subsection \<open>One batch\<close>

definition push_error :: "error_info \<Rightarrow> run_locals \<Rightarrow> run_locals" where
  "push_error info s =
     s\<lparr>l_errors := l_errors s @ [info],
       server := assign (\<lambda>p. p\<lparr>errors := errors p @ [info]\<rparr>) (server s)\<rparr>"

text \<open>The callback of \<open>results.forEach\<close>; \<open>forEach\<close> skips the holes of the array.\<close>

fun fold_result :: "run_locals \<Rightarrow> task_result option \<Rightarrow> run_locals" where
  "fold_result s None = s"
| "fold_result s (Some r) =
     (let n = l_processedVariants s + 1;
          s1 = s\<lparr>l_processedVariants := n,
                 server := assign (\<lambda>p. p\<lparr>processedVariants := n\<rparr>) (server s)\<rparr>
      in case r of
           Success v \<Rightarrow> s1
         | UserError v es \<Rightarrow> push_error (UserErrorInfo v es) s1
         | ApiError v m \<Rightarrow> push_error (ApiErrorInfo v m) s1)"

text \<open>\<open>batchCount++; serverState.variantUpdateProgress.currentBatch = batchCount\<close>.\<close>

definition enter_batch :: "run_locals \<Rightarrow> run_locals" where
  "enter_batch s =
     s\<lparr>l_batchCount := l_batchCount s + 1,
       server := assign (\<lambda>p. p\<lparr>currentBatch := l_batchCount s + 1\<rparr>) (server s)\<rparr>"

text \<open>
  The \<open>try\<close> block of the loop body. Everything that can raise in it comes before the
  first assignment, so an exception leaves the state as it was on entry.
\<close>

definition batch_body :: "shop \<Rightarrow> run_locals \<Rightarrow> js_error + run_locals" where
  "batch_body w s =
     (case variants_response w (l_batchCount s) BATCH_SIZE (l_cursor s) of
        Rejects m \<Rightarrow> Inl (Error m)
      | Json (Some errs) d \<Rightarrow> Inl (Error (join '', '' errs))
      | Json None None \<Rightarrow> Inl (TypeError ''Cannot read properties of null (reading 'productVariants')'')
      | Json None (Some pg) \<Rightarrow>
          (case parallelLimit (task_order w (l_batchCount s)) (variantPromises w (edges pg))
                  CONCURRENCY_LIMIT of
             (seen, Inl e) \<Rightarrow> Inl (Error e)
           | (seen, Inr results) \<Rightarrow>
               Inr ((foldl fold_result s results)
                      \<lparr>l_hasNextPage := hasNextPage pg,
                       l_cursor := endCursor pg,
                       admitted := admitted s + pl_i (last seen)\<rparr>)))"

text \<open>The loop body with its \<open>catch (batchError)\<close>.\<close>

definition process_batch :: "shop \<Rightarrow> run_locals \<Rightarrow> run_locals" where
  "process_batch w s =
     (case batch_body w (enter_batch s) of
        Inr s' \<Rightarrow> s'
      | Inl e \<Rightarrow>
          (push_error (BatchErrorInfo (l_batchCount (enter_batch s)) (message e)) (enter_batch s))
            \<lparr>l_hasNextPage := False\<rparr>)"

subsection \<open>The run\<close>

text \<open>
  \<open>while (hasNextPage)\<close>. Nothing bounds the number of pages the shop announces, so the
  loop is given fuel: \<open>None\<close> is a run that has not left the loop after \<open>fuel\<close> batches.
  The delay between two batches changes no variable.
\<close>

fun batch_loop :: "nat \<Rightarrow> shop \<Rightarrow> run_locals \<Rightarrow> run_locals option" where
  "batch_loop 0 w s = (if l_hasNextPage s then None else Some s)"
| "batch_loop (Suc fuel) w s =
     (if l_hasNextPage s then batch_loop fuel w (process_batch w s) else Some s)"

text \<open>
  The function up to its first \<open>await\<close>, which the caller executes synchronously:
  \<open>isRunning = true\<close> and the progress tracker is replaced by a fresh object.
\<close>

definition begin_run :: "shop \<Rightarrow> server_state \<Rightarrow> server_state" where
  "begin_run w st =
     assign (\<lambda>p. \<lparr>processedVariants = 0, totalVariants = 0, isProcessing = True,
                   currentBatch = 0, errors = [], startedAt = Some (time_started w),
                   completedAt = None, summary = None, summaryReturned = False\<rparr>)
       (st\<lparr>isRunning := True\<rparr>)"

definition initial_locals :: "server_state \<Rightarrow> run_locals" where
  "initial_locals st =
     \<lparr>l_hasNextPage = True, l_cursor = None, l_processedVariants = 0, l_errors = [],
      l_batchCount = 0, l_totalVariants = 0, server = st, admitted = 0\<rparr>"

text \<open>
  The estimate of the total: \<open>if (countData.data?.shop?.productVariantsCount)\<close>, inside
  its own \<open>try\<close> whose \<open>catch\<close> only logs.
\<close>

definition estimate_total :: "shop \<Rightarrow> run_locals \<Rightarrow> run_locals" where
  "estimate_total w s =
     (case count_response w of
        Rejects m \<Rightarrow> s
      | Json errs None \<Rightarrow> s
      | Json errs (Some c) \<Rightarrow>
          if c = 0 then s
          else s\<lparr>l_totalVariants := c,
                 server := assign (\<lambda>p. p\<lparr>totalVariants := c\<rparr>) (server s)\<rparr>)"

text \<open>After the loop: the three assignments, the returned object, and \<open>finally\<close>.\<close>

definition finish :: "shop \<Rightarrow> run_locals \<Rightarrow> run_result \<times> server_state" where
  "finish w s =
     (\<lparr>r_success = True, r_processedVariants = l_processedVariants s,
       r_totalVariants = l_totalVariants s, r_batchCount = l_batchCount s,
       r_errors = l_errors s\<rparr>,
      (assign (\<lambda>p. p\<lparr>summary := Some
                 \<lparr>success = True,
                  sum_processedVariants = Some (l_processedVariants s),
                  sum_totalVariants = Some (l_totalVariants s),
                  sum_batchCount = Some (l_batchCount s),
                  sum_error = None,
                  sum_message = ''Processed '' @ show_nat (l_processedVariants s)
                     @ '' variants across '' @ show_nat (l_batchCount s) @ '' batches''\<rparr>\<rparr>)
        (assign (\<lambda>p. p\<lparr>completedAt := Some (time_completed w)\<rparr>)
          (assign (\<lambda>p. p\<lparr>isProcessing := False\<rparr>) (server s))))
        \<lparr>isRunning := False\<rparr>)"

text \<open>
  The rest of the function after its synchronous beginning. Every statement of the outer
  \<open>try\<close> block that can raise is inside one of the two inner \<open>try\<close> blocks, so the outer
  \<open>catch\<close>, which would write a summary with \<open>success: false\<close>, has no path leading to it.
\<close>

definition run_loop :: "nat \<Rightarrow> shop \<Rightarrow> server_state \<Rightarrow> run_locals option" where
  "run_loop fuel w st = batch_loop fuel w (estimate_total w (initial_locals st))"

definition continue_run :: "nat \<Rightarrow> shop \<Rightarrow> server_state \<Rightarrow> (run_result \<times> server_state) option" where
  "continue_run fuel w st = map_option (finish w) (run_loop fuel w st)"

text \<open>
  The variables on entry to the loop body for batch \<open>b + 1\<close>, when the run gets that far:
  \<open>None\<close> when the loop has ended after fewer than \<open>b\<close> batches.
\<close>

fun after_batches :: "nat \<Rightarrow> shop \<Rightarrow> run_locals \<Rightarrow> run_locals option" where
  "after_batches 0 w s = Some s"
| "after_batches (Suc b) w s =
     (if l_hasNextPage s then after_batches b w (process_batch w s) else None)"

text \<open>
  \<open>processVariantsInBackground(admin)\<close>: \<open>Some (None, st)\<close> is the early \<open>return\<close> of the guard
  (the promise resolves to \<open>undefined\<close>).
\<close>

definition processVariantsInBackground ::
  "nat \<Rightarrow> shop \<Rightarrow> server_state \<Rightarrow> (run_result option \<times> server_state) option" where
  "processVariantsInBackground fuel w st =
     (if isRunning st then Some (None, st)
      else map_option (\<lambda>(r, st'). (Some r, st')) (continue_run fuel w (begin_run w st)))"

text \<open>What a status query reads once the run has returned.\<close>

definition final_progress :: "nat \<Rightarrow> shop \<Rightarrow> server_state \<Rightarrow> progress option" where
  "final_progress fuel w st =
     map_option (\<lambda>(r, st'). variantUpdateProgress st') (processVariantsInBackground fuel w st)"

subsection \<open>The action\<close>

text \<open>
  \<open>formData.get("intent")\<close> is \<open>"getProgress"\<close> or something else. The responses are
  \<open>json({...progressData, actionCompleted: true, ...progressData.summary})\<close> and
  \<open>json(progressData)\<close> (the second and third member say whether \<open>actionCompleted\<close> and the
  members of the summary are spread at the top level), and \<open>json({success, message,
  isProcessing})\<close>.
\<close>

datatype intent = GetProgress | StartSync

datatype response =
    ProgressJson progress bool "summary option"
  | MessageJson bool string "bool option"

definition getProgress :: "server_state \<Rightarrow> response \<times> server_state" where
  "getProgress st =
     (let progressData = variantUpdateProgress st
      in if \<not> isProcessing progressData \<and> completedAt progressData \<noteq> None
              \<and> \<not> summaryReturned progressData
         then (let st' = assign (\<lambda>p. p\<lparr>summaryReturned := True\<rparr>) st
               in (ProgressJson (variantUpdateProgress st') True
                     (summary (variantUpdateProgress st')), st'))
         else (ProgressJson progressData False None, st))"

text \<open>
  Starting: the guard, the reset of the tracker, and the call of
  \<open>processVariantsInBackground\<close>, of which the beginning runs before the response is
  returned and the rest (\<open>continue_run\<close>) afterwards. The promise of the run never
  rejects, so the \<open>.catch\<close> handler attached to it does not run.
\<close>

definition start :: "shop \<Rightarrow> server_state \<Rightarrow> response \<times> server_state" where
  "start w st =
     (if isRunning st
      then (MessageJson False ''Process already running. Please wait for it to complete.'' None, st)
      else (MessageJson True ''Processing started. You can track progress on this page.'' (Some True),
            begin_run w
              (assign (\<lambda>p. \<lparr>processedVariants = 0, totalVariants = 0, isProcessing = True,
                            currentBatch = 0, errors = [], startedAt = Some (time_reset w),
                            completedAt = None, summary = None, summaryReturned = False\<rparr>) st)))"

definition action :: "shop \<Rightarrow> intent \<Rightarrow> server_state \<Rightarrow> response \<times> server_state" where
  "action w i st = (case i of GetProgress \<Rightarrow> getProgress st | StartSync \<Rightarrow> start w st)"



section \<open>Incremental update (app/utils/inventory.jsx, the webhook route)\<close>

text \<open>
  The notification \<open>{inventory_item_id, location_id, available}\<close>. The two identifiers are
  numbers; \<open>available\<close> is any scalar.
\<close>

record payload =
  inventory_item_id :: int
  location_id :: int
  available :: js_value

record metafield =
  metafield_id :: string
  metafield_value :: string

record item_variant =
  iv_id :: string
  iv_metafield :: "metafield option"

text \<open>
  \<open>JSON.parse\<close> is not code of the repository: the handler takes it as part of its
  environment. It raises a \<open>SyntaxError\<close> on text that is not JSON; otherwise the handler
  reads the member \<open>locations\<close> of the value, which is an array of records or is not
  one (then calling \<open>findIndex\<close> on it raises a \<open>TypeError\<close>). \<open>Inl\<close> is the message of
  the \<open>SyntaxError\<close>.
\<close>

datatype document = NotASnapshot | Snapshot "location_record list"

record admin =
  variant_query :: "int \<Rightarrow> item_variant graphql"
  levels_query :: "int \<Rightarrow> level list graphql"
  location_query :: "int \<Rightarrow> string graphql"
  metafieldsSet :: "string \<Rightarrow> location_record list \<Rightarrow> user_error list graphql"
  JSON_parse :: "string \<Rightarrow> string + document"
  parseInt :: parse_int
  time_bootstrap :: instant
  time_merge :: instant

text \<open>\<open>findIndex\<close>: \<open>None\<close> is \<open>-1\<close>.\<close>

fun findIndex :: "('a \<Rightarrow> bool) \<Rightarrow> 'a list \<Rightarrow> nat option" where
  "findIndex P [] = None"
| "findIndex P (x # xs) = (if P x then Some 0 else map_option Suc (findIndex P xs))"

text \<open>
  The callback of \<open>edges.map\<close> in the bootstrap path reads \<open>edge.node.quantities[0].quantity\<close>
  without \<open>?.\<close>: a level whose \<open>quantities\<close> is empty raises, and \<open>map\<close> stops there.
\<close>

fun format_levels :: "parse_int \<Rightarrow> instant \<Rightarrow> level list \<Rightarrow> js_error + location_record list" where
  "format_levels parseInt10 now [] = Inr []"
| "format_levels parseInt10 now (l # ls) =
     (case quantities l of
        [] \<Rightarrow> Inl (TypeError ''Cannot read properties of undefined (reading 'quantity')'')
      | q # _ \<Rightarrow>
          (case format_levels parseInt10 now ls of
             Inl e \<Rightarrow> Inl e
           | Inr rs \<Rightarrow>
               Inr (\<lparr>loc_id = location_number parseInt10 (location_gid l),
                     loc_name = location_name l,
                     loc_available = (case q of None \<Rightarrow> 0 | Some n \<Rightarrow> n),
                     loc_updatedAt = now\<rparr> # rs)))"

text \<open>
  The branch \<open>if (metafieldsEmpty)\<close>: the query, the two \<open>console.log\<close> calls whose
  arguments read \<open>edges[0].node\<close> and \<open>edges[1].node\<close>, the test of \<open>errors\<close>, and the
  formatting.
\<close>

definition bootstrap :: "admin \<Rightarrow> payload \<Rightarrow> js_error + location_record list" where
  "bootstrap a pl =
     (case levels_query a (inventory_item_id pl) of
        Rejects m \<Rightarrow> Inl (Error m)
      | Json errs None \<Rightarrow>
          Inl (TypeError ''Cannot read properties of null (reading 'inventoryLevels')'')
      | Json errs (Some lv) \<Rightarrow>
          if length lv < 1 then Inl (TypeError ''Cannot read properties of undefined (reading 'node')'')
          else if length lv < 2 then Inl (TypeError ''Cannot read properties of undefined (reading 'node')'')
          else if errs \<noteq> None then Inl (Error ''Failed to fetch inventory levels.'')
          else format_levels (parseInt a) (time_bootstrap a) lv)"

text \<open>
  \<open>{id: parseInt(location_id), name: location?.name || `Location ${location_id}`,
  available: parseInt(available, 10) || 0, updatedAt: new Date().toISOString()}\<close>;
  the second argument is \<open>locationJson.data?.location\<close>.
\<close>

definition updatedLocation :: "admin \<Rightarrow> payload \<Rightarrow> string option \<Rightarrow> location_record" where
  "updatedLocation a pl location =
     \<lparr>loc_id = (case parseInt a (JNumber (location_id pl)) of
                  None \<Rightarrow> JNaN
                | Some n \<Rightarrow> JNumber n),
      loc_name = (case location of
                    None \<Rightarrow> ''Location '' @ show_int (location_id pl)
                  | Some n \<Rightarrow> if n = [] then ''Location '' @ show_int (location_id pl) else n),
      loc_available = (case parseInt a (available pl) of None \<Rightarrow> 0 | Some n \<Rightarrow> n),
      loc_updatedAt = time_merge a\<rparr>"

text \<open>
  Steps 2 and 3: the location query, then \<open>findIndex((loc) => loc.id === location_id)\<close>
  and the replacement at that index or the \<open>push\<close>.
\<close>

definition merge_update :: "admin \<Rightarrow> payload \<Rightarrow> document \<Rightarrow> js_error + location_record list" where
  "merge_update a pl currentData =
     (case location_query a (location_id pl) of
        Rejects m \<Rightarrow> Inl (Error m)
      | Json errs location \<Rightarrow>
          (case currentData of
             NotASnapshot \<Rightarrow>
               Inl (TypeError ''Cannot read properties of undefined (reading 'findIndex')'')
           | Snapshot locations \<Rightarrow>
               (case findIndex (\<lambda>loc. loc_id loc = JNumber (location_id pl)) locations of
                  Some index \<Rightarrow> Inr (locations[index := updatedLocation a pl location])
                | None \<Rightarrow> Inr (locations @ [updatedLocation a pl location]))))"

text \<open>
  Step 4. The test for user errors reads \<open>updateJson.data?.metafieldSet\<close>, a member the
  answer to the mutation \<open>metafieldsSet\<close> does not have, so only \<open>errors\<close> and a rejected
  request make the handler raise.
\<close>

definition write_snapshot ::
  "admin \<Rightarrow> item_variant \<Rightarrow> location_record list \<Rightarrow> js_error + location_record list" where
  "write_snapshot a v doc =
     (case metafieldsSet a (iv_id v) doc of
        Rejects m \<Rightarrow> Inl (Error m)
      | Json (Some errs) d \<Rightarrow> Inl (Error ''Failed to update metafield'')
      | Json None d \<Rightarrow> Inr doc)"

text \<open>
  \<open>handleInventoryUpdate(admin, payload)\<close>: \<open>Inl\<close> is the exception it raises, \<open>Inr\<close> the
  snapshot it has written. \<open>read_snapshot\<close> is the \<open>if (metafieldsEmpty) ... else ...\<close>
  that sets \<open>currentData\<close> and \<open>allLocations\<close>.
\<close>

definition metafieldsEmpty :: "item_variant \<Rightarrow> bool" where
  "metafieldsEmpty v = (case iv_metafield v of None \<Rightarrow> True | Some mf \<Rightarrow> metafield_value mf = [])"

definition read_snapshot ::
  "admin \<Rightarrow> payload \<Rightarrow> item_variant \<Rightarrow> js_error + document \<times> location_record list" where
  "read_snapshot a pl v =
     (if metafieldsEmpty v then
        (case bootstrap a pl of
           Inl e \<Rightarrow> Inl e
         | Inr allLocations \<Rightarrow> Inr (Snapshot allLocations, allLocations))
      else
        (case iv_metafield v of
           None \<Rightarrow> Inr (Snapshot [], [])
         | Some mf \<Rightarrow>
             if metafield_value mf = [] then Inr (Snapshot [], [])
             else (case JSON_parse a (metafield_value mf) of
                     Inl m \<Rightarrow> Inl (SyntaxError m)
                   | Inr currentData \<Rightarrow> Inr (currentData, []))))"

definition handleInventoryUpdate :: "admin \<Rightarrow> payload \<Rightarrow> js_error + location_record list" where
  "handleInventoryUpdate a pl =
     (case variant_query a (inventory_item_id pl) of
        Rejects m \<Rightarrow> Inl (Error m)
      | Json errs None \<Rightarrow> Inl (Error ''Variant not found'')
      | Json errs (Some v) \<Rightarrow>
          (case read_snapshot a pl v of
             Inl e \<Rightarrow> Inl e
           | Inr (currentData, allLocations) \<Rightarrow>
               (case (if \<not> metafieldsEmpty v \<or> length allLocations = 0
                      then merge_update a pl currentData
                      else Inr allLocations) of
                  Inl e \<Rightarrow> Inl e
                | Inr doc \<Rightarrow> write_snapshot a v doc)))"

text \<open>
  The route's \<open>action\<close>: its \<open>try\<close> turns every exception into the status 500; a missing
  admin session is answered with 401; other topics are acknowledged.
\<close>

datatype authentication = AuthenticationFails | Authenticated "admin option" string

definition webhook_action :: "authentication \<Rightarrow> payload \<Rightarrow> nat" where
  "webhook_action auth pl =
     (case auth of
        AuthenticationFails \<Rightarrow> 500
      | Authenticated None topic \<Rightarrow> 401
      | Authenticated (Some a) topic \<Rightarrow>
          if topic = ''INVENTORY_LEVELS_UPDATE''
          then (case handleInventoryUpdate a pl of Inl e \<Rightarrow> 500 | Inr doc \<Rightarrow> 200)
          else 200)"

section \<open>Auxiliary definitions for the proofs\<close>

text \<open>
  The invariant of the limiter over tasks that settle with the values \<open>vs\<close>: the counter
  stays within the task list, the tasks in flight are distinct and were started, the
  pool holds at most \<open>min k n\<close> tasks and exactly that many while a task is waiting, and
  \<open>results\<close> holds the value of every started task that is no longer in flight and a hole
  elsewhere.
\<close>

definition pl_inv :: "'a list \<Rightarrow> nat \<Rightarrow> 'a limiter \<Rightarrow> bool" where
  "pl_inv vs k st \<longleftrightarrow>
     pl_i st \<le> length vs \<and>
     distinct (pl_pending st) \<and>
     set (pl_pending st) \<subseteq> {0..<pl_i st} \<and>
     length (pl_pending st) \<le> min k (length vs) \<and>
     (pl_i st < length vs \<longrightarrow> length (pl_pending st) = min k (length vs)) \<and>
     length (pl_results st) \<le> pl_i st \<and>
     (\<forall>j < pl_i st. j \<notin> set (pl_pending st) \<longrightarrow> j < length (pl_results st)) \<and>
     (\<forall>j < length (pl_results st).
        pl_results st ! j = (if j \<in> set (pl_pending st) then None else Some (vs ! j)))"



text \<open>
  The invariant of a run between two batches. \<open>pre\<close> is what was observed before the run
  began; since then the observed values of \<open>processedVariants\<close> have not decreased, the
  progress object agrees with the local variables, the run is marked as running and
  not completed, and a batch error has been recorded only if the loop is about to end.
\<close>

definition observations_ok :: "progress list \<Rightarrow> server_state \<Rightarrow> bool" where
  "observations_ok pre st \<longleftrightarrow>
     (\<exists>obs. observed st = pre @ obs \<and> obs \<noteq> [] \<and> sorted (map processedVariants obs)
            \<and> last obs = variantUpdateProgress st)"

definition run_inv :: "progress list \<Rightarrow> run_locals \<Rightarrow> bool" where
  "run_inv pre s \<longleftrightarrow>
     observations_ok pre (server s) \<and>
     processedVariants (variantUpdateProgress (server s)) = l_processedVariants s \<and>
     errors (variantUpdateProgress (server s)) = l_errors s \<and>
     currentBatch (variantUpdateProgress (server s)) = l_batchCount s \<and>
     totalVariants (variantUpdateProgress (server s)) = l_totalVariants s \<and>
     isProcessing (variantUpdateProgress (server s)) \<and>
     completedAt (variantUpdateProgress (server s)) = None \<and>
     summary (variantUpdateProgress (server s)) = None \<and>
     \<not> summaryReturned (variantUpdateProgress (server s)) \<and>
     isRunning (server s) \<and>
     (if l_hasNextPage s then filter is_batchError (l_errors s) = []
      else length (filter is_batchError (l_errors s)) \<le> 1)"


section \<open>Concrete inputs\<close>

text \<open>What \<open>parseInt(v, 10)\<close> gives on the values that occur in the concrete inputs below.\<close>

definition numerals :: parse_int where
  "numerals v =
     (if v = JString ''7'' \<or> v = JNumber 7 then Some 7
      else if v = JString ''8'' then Some 8
      else if v = JString ''12'' then Some 12
      else None)"

text \<open>The server state when the module is loaded.\<close>

definition idle_state :: server_state where
  "idle_state =
     \<lparr>variantUpdateProgress =
        \<lparr>processedVariants = 0, totalVariants = 0, isProcessing = False, currentBatch = 0,
         errors = [], startedAt = None, completedAt = None, summary = None,
         summaryReturned = False\<rparr>,
      isRunning = False, observed = []\<rparr>"

text \<open>
  A shop of three pages of two variants each whose every request succeeds, and the
  same shop when the request for the second page is rejected.
\<close>

definition three_pages :: shop where
  "three_pages =
     \<lparr>count_response = Json None (Some 6),
      variants_response = (\<lambda>call first after.
         Json None (Some \<lparr>edges = [\<lparr>variant_id = ''gid://shopify/ProductVariant/1'',
                                    inventoryItem = Some ''gid://shopify/InventoryItem/1''\<rparr>,
                                   \<lparr>variant_id = ''gid://shopify/ProductVariant/2'',
                                    inventoryItem = Some ''gid://shopify/InventoryItem/2''\<rparr>],
                          hasNextPage = (call < 3), endCursor = Some ''cursor''\<rparr>)),
      inventory_response = (\<lambda>item.
         Json None (Some [\<lparr>quantities = [Some 4], location_gid = ''gid://shopify/Location/7'',
                           location_name = ''A''\<rparr>])),
      metafieldsSet_response = (\<lambda>owner doc. Json None (Some [])),
      task_order = (\<lambda>batch event. event),
      shop_parseInt = numerals,
      time_reset = 10, time_started = 11, time_task = (\<lambda>v. 12), time_completed = 13\<rparr>"

definition second_page_rejected :: shop where
  "second_page_rejected =
     three_pages\<lparr>variants_response := (\<lambda>call first after.
        if call = 2 then Rejects ''fetch failed'' else variants_response three_pages call first after)\<rparr>"

text \<open>A shop whose count query answers 1 and whose only page holds two variants.\<close>

definition count_too_small :: shop where
  "count_too_small =
     three_pages\<lparr>count_response := Json None (Some 1),
                 variants_response := (\<lambda>call first after.
        Json None (Some \<lparr>edges = [\<lparr>variant_id = ''gid://shopify/ProductVariant/1'',
                                   inventoryItem = Some ''gid://shopify/InventoryItem/1''\<rparr>,
                                  \<lparr>variant_id = ''gid://shopify/ProductVariant/2'',
                                   inventoryItem = Some ''gid://shopify/InventoryItem/2''\<rparr>],
                         hasNextPage = False, endCursor = None\<rparr>))\<rparr>"

text \<open>A shop whose only page holds one variant without inventory item.\<close>

definition untracked_variant :: shop where
  "untracked_variant =
     three_pages\<lparr>count_response := Json None (Some 1),
                 variants_response := (\<lambda>call first after.
        Json None (Some \<lparr>edges = [\<lparr>variant_id = ''gid://shopify/ProductVariant/1'',
                                   inventoryItem = None\<rparr>],
                         hasNextPage = False, endCursor = None\<rparr>))\<rparr>"


text \<open>The variables of the run in \<open>second_page_rejected\<close> when its second batch begins.\<close>

definition before_second_batch :: run_locals where
  "before_second_batch =
     process_batch second_page_rejected
       (estimate_total second_page_rejected
          (initial_locals (begin_run second_page_rejected idle_state)))"


text \<open>
  The notification of the scenario: location 7 of inventory item 111 now has 12 units,
  sent as text.
\<close>

definition notification :: payload where
  "notification = \<lparr>inventory_item_id = 111, location_id = 7, available = JString ''12''\<rparr>"

text \<open>
  A shop whose variant stores a snapshot with one record for location 7, and which has
  two inventory levels. Its \<open>JSON_parse\<close> knows the stored text and rejects any other.
\<close>

definition stored_text :: string where
  \<open>stored_text = ''{"locations":[{"id":7,"name":"A","available":3,"updatedAt":"t0"}]}''\<close>

definition stocked :: admin where
  "stocked =
     \<lparr>variant_query = (\<lambda>item. Json None (Some
         \<lparr>iv_id = ''gid://shopify/ProductVariant/1'',
          iv_metafield = Some \<lparr>metafield_id = ''gid://shopify/Metafield/1'',
                                metafield_value = stored_text\<rparr>\<rparr>)),
      levels_query = (\<lambda>item. Json None (Some
         [\<lparr>quantities = [Some 4], location_gid = ''gid://shopify/Location/7'', location_name = ''A''\<rparr>,
          \<lparr>quantities = [None], location_gid = ''gid://shopify/Location/8'', location_name = ''B''\<rparr>])),
      location_query = (\<lambda>location. Json None (Some ''A'')),
      metafieldsSet = (\<lambda>owner doc. Json None (Some [])),
      JSON_parse = (\<lambda>text.
         if text = stored_text
         then Inr (Snapshot [\<lparr>loc_id = JNumber 7, loc_name = ''A'', loc_available = 3,
                              loc_updatedAt = 0\<rparr>])
         else Inl ''Unexpected token''),
      parseInt = numerals,
      time_bootstrap = 20, time_merge = 21\<rparr>"

text \<open>The same shop when the stored text is not JSON, and when nothing is stored.\<close>

definition corrupted :: admin where
  "corrupted =
     stocked\<lparr>variant_query := (\<lambda>item. Json None (Some
         \<lparr>iv_id = ''gid://shopify/ProductVariant/1'',
          iv_metafield = Some \<lparr>metafield_id = ''gid://shopify/Metafield/1'',
                                metafield_value = ''{bad''\<rparr>\<rparr>))\<rparr>"

definition nothing_stored :: admin where
  "nothing_stored =
     stocked\<lparr>variant_query := (\<lambda>item. Json None (Some
         \<lparr>iv_id = ''gid://shopify/ProductVariant/1'', iv_metafield = None\<rparr>))\<rparr>"

text \<open>
  Nothing stored and no inventory level; one level; two levels of which the second has
  an empty \<open>quantities\<close>.
\<close>

definition no_levels :: admin where
  "no_levels = nothing_stored\<lparr>levels_query := (\<lambda>item. Json None (Some []))\<rparr>"

definition one_level :: admin where
  "one_level = nothing_stored\<lparr>levels_query := (\<lambda>item. Json None (Some
     [\<lparr>quantities = [Some 4], location_gid = ''gid://shopify/Location/7'', location_name = ''A''\<rparr>]))\<rparr>"

definition empty_quantities :: admin where
  "empty_quantities = nothing_stored\<lparr>levels_query := (\<lambda>item. Json None (Some
     [\<lparr>quantities = [Some 4], location_gid = ''gid://shopify/Location/7'', location_name = ''A''\<rparr>,
      \<lparr>quantities = [], location_gid = ''gid://shopify/Location/8'', location_name = ''B''\<rparr>]))\<rparr>"

section \<open>The limiter keeps the order of the tasks and its bound\<close>

lemma length_array_set: "length (array_set xs idx v) = max (length xs) (Suc idx)"
  by (auto simp: array_set_def)

lemma nth_array_set:
  "j < length (array_set xs idx v) \<Longrightarrow>
   array_set xs idx v ! j =
     (if j = idx then Some v else if j < length xs then xs ! j else None)"
  by (auto simp: array_set_def nth_append nth_Cons')

lemma workers_started:
  "m \<le> length tasks \<Longrightarrow>
   (next_task tasks ^^ m) \<lparr>pl_results = [], pl_i = 0, pl_pending = []\<rparr>
     = \<lparr>pl_results = [], pl_i = m, pl_pending = [0..<m]\<rparr>"
  by (induction m) (auto simp: next_task_def)

lemma pl_inv_start:
  "pl_inv vs k \<lparr>pl_results = [], pl_i = min k (length vs), pl_pending = [0..<min k (length vs)]\<rparr>"
  by (auto simp: pl_inv_def)


lemma pl_inv_resume:
  assumes inv: "pl_inv vs k st"
    and mem: "idx \<in> set (pl_pending st)"
  shows "\<exists>st'. resume (map Fulfilled vs) idx st = Inr st' \<and> pl_inv vs k st'"
proof -
  let ?P = "pl_pending st" and ?R = "pl_results st" and ?n = "length vs"
  let ?P' = "remove1 idx ?P" and ?R' = "array_set ?R idx (vs ! idx)"
  from inv have i_le: "pl_i st \<le> ?n" and d: "distinct ?P"
    and sub: "set ?P \<subseteq> {0..<pl_i st}"
    and len_le: "length ?P \<le> min k ?n"
    and full: "pl_i st < ?n \<longrightarrow> length ?P = min k ?n"
    and rlen: "length ?R \<le> pl_i st"
    and done_in: "\<forall>j < pl_i st. j \<notin> set ?P \<longrightarrow> j < length ?R"
    and vals: "\<forall>j < length ?R. ?R ! j = (if j \<in> set ?P then None else Some (vs ! j))"
    by (simp_all add: pl_inv_def)
  from sub mem have idx: "idx < pl_i st" by auto
  with i_le have idx_n: "idx < ?n" by simp
  have setr: "set ?P' = set ?P - {idx}" using d by simp
  have "0 < length ?P" using mem by (cases ?P) auto
  then have lenr: "Suc (length ?P') = length ?P"
    using mem by (simp add: length_remove1)
  have dr: "distinct ?P'" using d by simp
  have rlen': "length ?R' \<le> pl_i st"
    using rlen idx by (simp add: length_array_set)
  have done_in': "\<forall>j < pl_i st. j \<notin> set ?P' \<longrightarrow> j < length ?R'"
    using done_in setr by (auto simp: length_array_set)
  have vals': "\<forall>j < length ?R'. ?R' ! j = (if j \<in> set ?P' then None else Some (vs ! j))"
  proof (intro allI impI)
    fix j assume j: "j < length ?R'"
    show "?R' ! j = (if j \<in> set ?P' then None else Some (vs ! j))"
    proof (cases "j = idx")
      case True
      then show ?thesis using j setr by (simp add: nth_array_set)
    next
      case False
      note ne = this
      show ?thesis
      proof (cases "j < length ?R")
        case True
        then show ?thesis using j ne setr vals by (simp add: nth_array_set)
      next
        case False
        then have "j \<in> set ?P \<or> \<not> j < pl_i st" using done_in by blast
        moreover have "j < pl_i st" using j rlen' by simp
        ultimately have "j \<in> set ?P'" using ne setr by simp
        then show ?thesis using j ne False by (simp add: nth_array_set)
      qed
    qed
  qed
  let ?mid = "st\<lparr>pl_results := ?R', pl_pending := ?P'\<rparr>"
  have r: "resume (map Fulfilled vs) idx st = Inr (next_task (map Fulfilled vs) ?mid)"
    using idx_n by (simp add: resume_def)
  have "pl_inv vs k (next_task (map Fulfilled vs) ?mid)"
  proof (cases "pl_i st < ?n")
    case False
    then have nt: "next_task (map Fulfilled vs) ?mid = ?mid"
      by (simp add: next_task_def)
    have "length ?P' \<le> min k ?n" using lenr len_le by linarith
    then show ?thesis
      unfolding nt pl_inv_def
      using False i_le dr sub setr rlen' done_in' vals' by auto
  next
    case True
    let ?i = "pl_i st"
    have nt: "next_task (map Fulfilled vs) ?mid
                = st\<lparr>pl_results := ?R', pl_pending := ?P' @ [?i], pl_i := Suc ?i\<rparr>"
      using True by (simp add: next_task_def)
    have fresh: "?i \<notin> set ?P" using sub by auto
    have c1: "Suc ?i \<le> ?n" using True by simp
    have c2: "distinct (?P' @ [?i])" using dr fresh setr by simp
    have c3: "set (?P' @ [?i]) \<subseteq> {0..<Suc ?i}" using sub setr by auto
    have c4: "length (?P' @ [?i]) = min k ?n" using lenr full True by simp
    have c5: "length ?R' \<le> Suc ?i" using rlen' by simp
    have c6: "\<forall>j < Suc ?i. j \<notin> set (?P' @ [?i]) \<longrightarrow> j < length ?R'"
      using done_in' by (auto simp: less_Suc_eq)
    have c7: "\<forall>j < length ?R'. ?R' ! j = (if j \<in> set (?P' @ [?i]) then None else Some (vs ! j))"
      using vals' rlen' by auto
    show ?thesis
      unfolding nt pl_inv_def using c1 c2 c3 c4 c5 c6 c7 by simp
  qed
  with r show ?thesis by blast
qed

lemma pl_inv_final:
  assumes inv: "pl_inv vs k st" and k: "1 \<le> k" and e: "pl_pending st = []"
  shows "pl_results st = map Some vs"
proof -
  have i: "pl_i st = length vs"
  proof (rule ccontr)
    assume "pl_i st \<noteq> length vs"
    with inv have "pl_i st < length vs" by (simp add: pl_inv_def)
    with inv k e show False by (auto simp: pl_inv_def)
  qed
  from inv e i have l: "length (pl_results st) = length vs"
    by (auto simp: pl_inv_def intro: le_antisym leI)
  show ?thesis
  proof (rule nth_equalityI)
    show "length (pl_results st) = length (map Some vs)" using l by simp
  next
    fix j assume "j < length (pl_results st)"
    then show "pl_results st ! j = map Some vs ! j"
      using inv e l by (simp add: pl_inv_def)
  qed
qed

lemma pl_inv_all_started:
  assumes inv: "pl_inv vs k st" and k: "1 \<le> k" and e: "pl_pending st = []"
  shows "pl_i st = length vs"
proof (rule ccontr)
  assume "pl_i st \<noteq> length vs"
  with inv have "pl_i st < length vs" by (simp add: pl_inv_def)
  with inv k e show False by (auto simp: pl_inv_def)
qed

lemma drive_inv:
  "pl_inv vs k st \<Longrightarrow> 1 \<le> k \<Longrightarrow>
   snd (drive sched t (map Fulfilled vs) st) = Inr (map Some vs) \<and>
   (\<forall>s \<in> set (fst (drive sched t (map Fulfilled vs) st)). pl_inv vs k s) \<and>
   fst (drive sched t (map Fulfilled vs) st) \<noteq> [] \<and>
   pl_i (last (fst (drive sched t (map Fulfilled vs) st))) = length vs"
proof (induction sched t "map Fulfilled vs :: 'a settled list" st rule: drive.induct)
  case (1 sched t st)
  show ?case
  proof (cases "pl_pending st = []")
    case True
    then show ?thesis
      using "1.prems" pl_inv_final [of vs k st] pl_inv_all_started [of vs k st] by simp
  next
    case False
    then have mem: "chosen sched t st \<in> set (pl_pending st)"
      by (simp add: chosen_def)
    from pl_inv_resume [OF "1.prems"(1) mem]
    obtain st' where r: "resume (map Fulfilled vs) (chosen sched t st) st = Inr st'"
      and inv': "pl_inv vs k st'" by blast
    from "1.hyps" [OF False r inv' "1.prems"(2)]
    show ?thesis using False r "1.prems"(1)
      by (simp add: split_beta)
  qed
qed


lemma parallelLimit_fulfilled:
  assumes k: "1 \<le> k"
  shows "snd (parallelLimit sched (map Fulfilled vs) k) = Inr (map Some vs)"
    and "\<forall>s \<in> set (fst (parallelLimit sched (map Fulfilled vs) k)). pl_inv vs k s"
    and "pl_i (last (fst (parallelLimit sched (map Fulfilled vs) k))) = length vs"
proof -
  have start: "(next_task (map Fulfilled vs) ^^ min k (length vs))
                 \<lparr>pl_results = [], pl_i = 0, pl_pending = []\<rparr>
               = \<lparr>pl_results = [], pl_i = min k (length vs), pl_pending = [0..<min k (length vs)]\<rparr>"
    by (rule workers_started) simp
  note d = drive_inv [OF pl_inv_start k, where sched = sched and t = 0 and vs = vs]
  show "snd (parallelLimit sched (map Fulfilled vs) k) = Inr (map Some vs)"
    unfolding parallelLimit_def length_map start using d by blast
  show "\<forall>s \<in> set (fst (parallelLimit sched (map Fulfilled vs) k)). pl_inv vs k s"
    unfolding parallelLimit_def length_map start using d by blast
  show "pl_i (last (fst (parallelLimit sched (map Fulfilled vs) k))) = length vs"
    unfolding parallelLimit_def length_map start using d by blast
qed









section \<open>Invariants of a run\<close>

lemma assign_simps [simp]:
  "variantUpdateProgress (assign f st) = f (variantUpdateProgress st)"
  "isRunning (assign f st) = isRunning st"
  "observed (assign f st) = observed st @ [f (variantUpdateProgress st)]"
  by (simp_all add: assign_def)

lemma sorted_snoc_last:
  fixes xs :: "nat list"
  assumes "sorted xs" and "xs \<noteq> []" and "last xs \<le> x"
  shows "sorted (xs @ [x])"
proof -
  have "y \<le> last xs" if "y \<in> set xs" for y
    using assms(1,2) that
  proof (induction xs)
    case Nil
    then show ?case by simp
  next
    case (Cons a xs)
    then show ?case by (cases "xs = []") auto
  qed
  with assms show ?thesis by (fastforce simp: sorted_append)
qed

lemma observations_ok_assign:
  assumes "observations_ok pre st"
    and "processedVariants (variantUpdateProgress st) \<le> processedVariants (f (variantUpdateProgress st))"
  shows "observations_ok pre (assign f st)"
proof -
  from assms(1) obtain obs where o: "observed st = pre @ obs" "obs \<noteq> []"
    "sorted (map processedVariants obs)" "last obs = variantUpdateProgress st"
    by (auto simp: observations_ok_def)
  have "last (map processedVariants obs) = processedVariants (variantUpdateProgress st)"
    using o by (simp add: last_map)
  then have "sorted (map processedVariants obs @ [processedVariants (f (variantUpdateProgress st))])"
    using o assms(2) by (intro sorted_snoc_last) simp_all
  then show ?thesis
    unfolding observations_ok_def
    by (intro exI [of _ "obs @ [f (variantUpdateProgress st)]"]) (simp add: o)
qed

lemma run_inv_push_error:
  assumes "run_inv pre s" and "\<not> is_batchError info"
  shows "run_inv pre (push_error info s)"
  using assms
  by (auto simp: run_inv_def push_error_def intro!: observations_ok_assign)

lemma push_error_frame [simp]:
  "l_processedVariants (push_error info s) = l_processedVariants s"
  "l_hasNextPage (push_error info s) = l_hasNextPage s"
  "l_batchCount (push_error info s) = l_batchCount s"
  "l_totalVariants (push_error info s) = l_totalVariants s"
  "l_cursor (push_error info s) = l_cursor s"
  "admitted (push_error info s) = admitted s"
  "l_errors (push_error info s) = l_errors s @ [info]"
  by (simp_all add: push_error_def)

lemma fold_result_Some:
  "l_processedVariants (fold_result s (Some r)) = l_processedVariants s + 1"
  "processedVariants (variantUpdateProgress (server (fold_result s (Some r))))
     = l_processedVariants s + 1"
  "l_hasNextPage (fold_result s (Some r)) = l_hasNextPage s"
  "l_batchCount (fold_result s (Some r)) = l_batchCount s"
  "l_totalVariants (fold_result s (Some r)) = l_totalVariants s"
  "l_cursor (fold_result s (Some r)) = l_cursor s"
  "admitted (fold_result s (Some r)) = admitted s"
  by (cases r; simp add: Let_def push_error_def)+

lemma run_inv_fold_result:
  assumes "run_inv pre s"
  shows "run_inv pre (fold_result s (Some r))"
proof -
  let ?s1 = "s\<lparr>l_processedVariants := Suc (l_processedVariants s),
                server := assign (\<lambda>p. p\<lparr>processedVariants := Suc (l_processedVariants s)\<rparr>) (server s)\<rparr>"
  have s1: "run_inv pre ?s1"
    using assms by (auto simp: run_inv_def intro!: observations_ok_assign)
  have "run_inv pre (push_error info ?s1)" if "\<not> is_batchError info" for info
    using s1 that by (rule run_inv_push_error)
  with s1 show ?thesis
    by (cases r) (simp_all add: Let_def)
qed

lemma foldl_fold_result:
  assumes "run_inv pre s"
  shows "run_inv pre (foldl fold_result s (map Some rs))
       \<and> l_processedVariants (foldl fold_result s (map Some rs)) = l_processedVariants s + length rs
       \<and> l_hasNextPage (foldl fold_result s (map Some rs)) = l_hasNextPage s
       \<and> l_batchCount (foldl fold_result s (map Some rs)) = l_batchCount s
       \<and> l_totalVariants (foldl fold_result s (map Some rs)) = l_totalVariants s
       \<and> admitted (foldl fold_result s (map Some rs)) = admitted s"
  using assms
proof (induction rs arbitrary: s)
  case Nil
  then show ?case by simp
next
  case (Cons r rs)
  from Cons.IH [OF run_inv_fold_result [OF Cons.prems, of r]]
  show ?case by (simp add: fold_result_Some del: fold_result.simps)
qed


lemma run_inv_enter_batch:
  assumes "run_inv pre s"
  shows "run_inv pre (enter_batch s)"
  using assms
  by (auto simp: run_inv_def enter_batch_def intro!: observations_ok_assign)

lemma enter_batch_frame [simp]:
  "l_processedVariants (enter_batch s) = l_processedVariants s"
  "l_hasNextPage (enter_batch s) = l_hasNextPage s"
  "l_batchCount (enter_batch s) = Suc (l_batchCount s)"
  "l_totalVariants (enter_batch s) = l_totalVariants s"
  "l_cursor (enter_batch s) = l_cursor s"
  "admitted (enter_batch s) = admitted s"
  "l_errors (enter_batch s) = l_errors s"
  by (simp_all add: enter_batch_def)

lemma batch_body_page:
  assumes "variants_response w (l_batchCount s) BATCH_SIZE (l_cursor s) = Json None (Some pg)"
  shows "batch_body w s =
           Inr ((foldl fold_result s (map Some (map (process_variant w) (edges pg))))
                  \<lparr>l_hasNextPage := hasNextPage pg, l_cursor := endCursor pg,
                   admitted := admitted s + length (edges pg)\<rparr>)"
proof -
  let ?vs = "map (process_variant w) (edges pg)"
  let ?run = "parallelLimit (task_order w (l_batchCount s)) (map Fulfilled ?vs) CONCURRENCY_LIMIT"
  have k: "1 \<le> CONCURRENCY_LIMIT" by (simp add: CONCURRENCY_LIMIT_def)
  have tasks: "variantPromises w (edges pg) = map Fulfilled ?vs"
    by (simp add: variantPromises_def)
  have out: "snd ?run = Inr (map Some ?vs)"
    and adm: "pl_i (last (fst ?run)) = length ?vs"
    using parallelLimit_fulfilled [OF k] by blast+
  obtain seen outcome where r: "?run = (seen, outcome)" by (cases ?run)
  with out adm have "outcome = Inr (map Some ?vs)" "pl_i (last seen) = length (edges pg)"
    by simp_all
  then show ?thesis
    using assms r by (simp add: batch_body_def tasks)
qed

lemma batch_body_cases:
  obtains (raises) e where "batch_body w s = Inl e"
  | (page) pg where "variants_response w (l_batchCount s) BATCH_SIZE (l_cursor s) = Json None (Some pg)"
proof (cases "variants_response w (l_batchCount s) BATCH_SIZE (l_cursor s)")
  case (Rejects m)
  then show ?thesis using raises by (simp add: batch_body_def)
next
  case (Json errs d)
  show ?thesis
  proof (cases errs)
    case (Some es)
    then show ?thesis using Json raises by (simp add: batch_body_def)
  next
    case None
    note n = this
    show ?thesis
    proof (cases d)
      case None
      then show ?thesis using Json n raises by (simp add: batch_body_def)
    next
      case (Some pg)
      then show ?thesis using Json n page by simp
    qed
  qed
qed

lemma process_batch_raises:
  assumes "batch_body w (enter_batch s) = Inl e"
  shows "process_batch w s =
           (push_error (BatchErrorInfo (Suc (l_batchCount s)) (message e)) (enter_batch s))
             \<lparr>l_hasNextPage := False\<rparr>"
  using assms by (simp add: process_batch_def)

lemma run_inv_batch_error:
  assumes inv: "run_inv pre s" and more: "l_hasNextPage s"
  shows "run_inv pre ((push_error (BatchErrorInfo b m) (enter_batch s))\<lparr>l_hasNextPage := False\<rparr>)"
proof -
  from run_inv_enter_batch [OF inv] more
  show ?thesis
    by (auto simp: run_inv_def push_error_def intro!: observations_ok_assign)
qed

lemma process_batch_inv:
  assumes inv: "run_inv pre s" and adm: "admitted s = l_processedVariants s"
    and more: "l_hasNextPage s"
  shows "run_inv pre (process_batch w s)
       \<and> admitted (process_batch w s) = l_processedVariants (process_batch w s)
       \<and> l_batchCount (process_batch w s) = Suc (l_batchCount s)"
proof (cases w "enter_batch s" rule: batch_body_cases)
  case (raises e)
  show ?thesis
    unfolding process_batch_raises [OF raises]
    using run_inv_batch_error [OF inv more] adm by simp
next
  case (page pg)
  let ?f = "foldl fold_result (enter_batch s) (map Some (map (process_variant w) (edges pg)))"
  note f = foldl_fold_result [OF run_inv_enter_batch [OF inv], of "map (process_variant w) (edges pg)"]
  have pb: "process_batch w s
            = ?f\<lparr>l_hasNextPage := hasNextPage pg, l_cursor := endCursor pg,
                 admitted := admitted (enter_batch s) + length (edges pg)\<rparr>"
    by (simp add: process_batch_def batch_body_page [OF page])
  have "run_inv pre ?f" "l_hasNextPage ?f" using f more by simp_all
  then have "run_inv pre (?f\<lparr>l_hasNextPage := hasNextPage pg, l_cursor := endCursor pg,
                 admitted := admitted (enter_batch s) + length (edges pg)\<rparr>)"
    by (simp add: run_inv_def)
  then show ?thesis
    unfolding pb using f adm by simp
qed

lemma after_batches_inv:
  assumes "after_batches b w s0 = Some s" and "run_inv pre s0"
    and "admitted s0 = l_processedVariants s0"
  shows "run_inv pre s \<and> admitted s = l_processedVariants s
       \<and> l_batchCount s = l_batchCount s0 + b"
  using assms
proof (induction b arbitrary: s0)
  case 0
  then show ?case by simp
next
  case (Suc b)
  from Suc.prems(1) have more: "l_hasNextPage s0"
    and rest: "after_batches b w (process_batch w s0) = Some s"
    by (simp_all split: if_splits)
  from process_batch_inv [OF Suc.prems(2,3) more, of w]
  have "run_inv pre (process_batch w s0)"
    "admitted (process_batch w s0) = l_processedVariants (process_batch w s0)"
    "l_batchCount (process_batch w s0) = Suc (l_batchCount s0)"
    by simp_all
  with Suc.IH [OF rest] show ?case by simp
qed

lemma batch_loop_inv:
  assumes "batch_loop fuel w s0 = Some s" and "run_inv pre s0"
    and "admitted s0 = l_processedVariants s0"
  shows "run_inv pre s \<and> admitted s = l_processedVariants s \<and> \<not> l_hasNextPage s"
  using assms
proof (induction fuel arbitrary: s0)
  case 0
  then show ?case by (simp split: if_splits)
next
  case (Suc fuel)
  show ?case
  proof (cases "l_hasNextPage s0")
    case False
    with Suc.prems show ?thesis by simp
  next
    case True
    with Suc.prems(1) have rest: "batch_loop fuel w (process_batch w s0) = Some s" by simp
    from process_batch_inv [OF Suc.prems(2,3) True, of w]
    have "run_inv pre (process_batch w s0)"
      "admitted (process_batch w s0) = l_processedVariants (process_batch w s0)"
      by simp_all
    with Suc.IH [OF rest] show ?thesis by simp
  qed
qed

lemma batch_loop_after_batches:
  assumes "after_batches b w s0 = Some s"
  shows "batch_loop (b + n) w s0 = batch_loop n w s"
  using assms
  by (induction b arbitrary: s0) (simp_all split: if_splits)

lemma batch_loop_ended:
  "\<not> l_hasNextPage s \<Longrightarrow> batch_loop fuel w s = Some s"
  by (cases fuel) simp_all

lemma run_inv_begin:
  "run_inv (observed st) (estimate_total w (initial_locals (begin_run w st)))"
  "admitted (estimate_total w (initial_locals (begin_run w st)))
     = l_processedVariants (estimate_total w (initial_locals (begin_run w st)))"
  "l_batchCount (estimate_total w (initial_locals (begin_run w st))) = 0"
proof -
  have ok: "observations_ok (observed st) (begin_run w st)"
    unfolding observations_ok_def begin_run_def
    by (simp add: assign_def)
  have base: "run_inv (observed st) (initial_locals (begin_run w st))"
    using ok by (simp add: run_inv_def initial_locals_def) (simp add: begin_run_def)
  show "run_inv (observed st) (estimate_total w (initial_locals (begin_run w st)))"
  proof (cases "count_response w")
    case (Rejects m)
    then show ?thesis using base by (simp add: estimate_total_def)
  next
    case (Json errs d)
    then show ?thesis using base
      by (cases d) (auto simp: estimate_total_def run_inv_def intro!: observations_ok_assign)
  qed
  show "admitted (estimate_total w (initial_locals (begin_run w st)))
     = l_processedVariants (estimate_total w (initial_locals (begin_run w st)))"
    by (simp add: estimate_total_def initial_locals_def split: graphql.splits option.splits)
  show "l_batchCount (estimate_total w (initial_locals (begin_run w st))) = 0"
    by (simp add: estimate_total_def initial_locals_def split: graphql.splits option.splits)
qed

section \<open>What the run counts\<close>

lemma finish_state:
  "variantUpdateProgress (snd (finish w s)) =
     (variantUpdateProgress (server s))
       \<lparr>isProcessing := False, completedAt := Some (time_completed w),
        summary := Some
          \<lparr>success = True,
           sum_processedVariants = Some (l_processedVariants s),
           sum_totalVariants = Some (l_totalVariants s),
           sum_batchCount = Some (l_batchCount s),
           sum_error = None,
           sum_message = ''Processed '' @ show_nat (l_processedVariants s)
              @ '' variants across '' @ show_nat (l_batchCount s) @ '' batches''\<rparr>\<rparr>"
  "isRunning (snd (finish w s)) = False"
  "r_batchCount (fst (finish w s)) = l_batchCount s"
  by (simp_all add: finish_def)

lemma finish_observations:
  assumes "observations_ok pre (server s)"
  shows "observations_ok pre (snd (finish w s))"
proof -
  let ?a = "assign (\<lambda>p. p\<lparr>isProcessing := False\<rparr>) (server s)"
  let ?b = "assign (\<lambda>p. p\<lparr>completedAt := Some (time_completed w)\<rparr>) ?a"
  have a: "observations_ok pre ?a"
    using assms by (rule observations_ok_assign) simp
  have b: "observations_ok pre ?b"
    using a by (rule observations_ok_assign) simp
  have "observations_ok pre (assign (\<lambda>p. p\<lparr>summary := Some x\<rparr>) ?b)" for x
    using b by (rule observations_ok_assign) simp
  then show ?thesis
    by (simp add: finish_def observations_ok_def)
qed

lemma observations_sorted:
  assumes "observations_ok pre st"
  shows "sorted (map processedVariants (drop (length pre) (observed st)))"
  using assms by (auto simp: observations_ok_def)

text \<open>
  C7 (as amended). In a run that returns, the final \<open>processedVariants\<close> is the number of
  tasks the limiter has started; the values of \<open>processedVariants\<close> observed since the
  run began never decrease; and folding the result of one task adds exactly one,
  whatever the result is. The estimate \<open>totalVariants\<close> does not bound the count.
\<close>

theorem processed_counts_started_tasks:
  assumes "\<not> isRunning st" and "run_loop fuel w (begin_run w st) = Some s"
  shows "processVariantsInBackground fuel w st = Some (Some (fst (finish w s)), snd (finish w s))
       \<and> processedVariants (variantUpdateProgress (snd (finish w s))) = admitted s
       \<and> sorted (map processedVariants (drop (length (observed st)) (observed (snd (finish w s)))))
       \<and> l_processedVariants (fold_result s0 (Some r)) = l_processedVariants s0 + 1
       \<and> processedVariants (variantUpdateProgress (server (fold_result s0 (Some r))))
           = l_processedVariants s0 + 1"
proof -
  from assms(2) have loop:
    "batch_loop fuel w (estimate_total w (initial_locals (begin_run w st))) = Some s"
    by (simp add: run_loop_def)
  from batch_loop_inv [OF loop run_inv_begin(1) run_inv_begin(2)]
  have inv: "run_inv (observed st) s" and adm: "admitted s = l_processedVariants s"
    by simp_all
  have 1: "processVariantsInBackground fuel w st
             = Some (Some (fst (finish w s)), snd (finish w s))"
    using assms by (simp add: processVariantsInBackground_def continue_run_def split_beta)
  have 2: "processedVariants (variantUpdateProgress (snd (finish w s))) = admitted s"
    using inv adm by (simp add: finish_state run_inv_def)
  have "observations_ok (observed st) (snd (finish w s))"
    using inv by (intro finish_observations) (simp add: run_inv_def)
  then have 3: "sorted (map processedVariants
                  (drop (length (observed st)) (observed (snd (finish w s)))))"
    by (rule observations_sorted)
  show ?thesis using 1 2 3 by (simp add: fold_result_Some del: fold_result.simps)
qed

theorem processed_counts_started_tasks_witness:
  "\<not> isRunning idle_state
   \<and> map_option admitted (run_loop 3 three_pages (begin_run three_pages idle_state)) = Some 6
   \<and> map_option processedVariants (final_progress 3 three_pages idle_state) = Some 6"
proof -
  have idle: "\<not> isRunning idle_state" by (simp add: idle_state_def)
  obtain s where s: "run_loop 3 three_pages (begin_run three_pages idle_state) = Some s"
    and a: "admitted s = 6"
  proof -
    have "map_option admitted (run_loop 3 three_pages (begin_run three_pages idle_state)) = Some 6"
      by code_simp
    then show ?thesis using that by auto
  qed
  from processed_counts_started_tasks [OF idle s] a s idle
  show ?thesis by (simp add: final_progress_def)
qed

theorem processed_exceeds_estimate_counterexample:
  "map_option processedVariants (final_progress 1 count_too_small idle_state) = Some 2
   \<and> map_option totalVariants (final_progress 1 count_too_small idle_state) = Some 1"
  by code_simp

section \<open>Batch errors, untracked variants and the start guard\<close>

text \<open>
  C1 (as amended). When the loop body of batch \<open>b + 1\<close> raises outside a task, the run
  returns for every fuel above \<open>b\<close>: no further page is fetched (\<open>batchCount\<close> and
  \<open>currentBatch\<close> stay at \<open>b + 1\<close>), exactly one \<open>batchError\<close> record, the one of this
  batch, is in \<open>errors\<close>, and the progress state is finalized with \<open>isProcessing\<close> false,
  \<open>completedAt\<close> set and the summary of a normal exit: \<open>success\<close> is true and the message
  tells the number of variants and batches processed.
\<close>

theorem batch_error_ends_run:
  assumes "\<not> isRunning st"
    and "after_batches b w (estimate_total w (initial_locals (begin_run w st))) = Some s"
    and "l_hasNextPage s"
    and "batch_body w (enter_batch s) = Inl e"
  shows "\<exists>r st'. processVariantsInBackground (Suc (b + n)) w st = Some (Some r, st')
           \<and> r_batchCount r = Suc b
           \<and> currentBatch (variantUpdateProgress st') = Suc b
           \<and> errors (variantUpdateProgress st') = l_errors s @ [BatchErrorInfo (Suc b) (message e)]
           \<and> filter is_batchError (errors (variantUpdateProgress st'))
               = [BatchErrorInfo (Suc b) (message e)]
           \<and> \<not> isProcessing (variantUpdateProgress st') \<and> \<not> isRunning st'
           \<and> completedAt (variantUpdateProgress st') = Some (time_completed w)
           \<and> map_option success (summary (variantUpdateProgress st')) = Some True
           \<and> map_option sum_batchCount (summary (variantUpdateProgress st')) = Some (Some (Suc b))
           \<and> map_option sum_message (summary (variantUpdateProgress st'))
               = Some (''Processed '' @ show_nat (l_processedVariants s)
                       @ '' variants across '' @ show_nat (Suc b) @ '' batches'')"
proof -
  let ?s0 = "estimate_total w (initial_locals (begin_run w st))"
  let ?info = "BatchErrorInfo (Suc (l_batchCount s)) (message e)"
  let ?s' = "(push_error ?info (enter_batch s))\<lparr>l_hasNextPage := False\<rparr>"
  from after_batches_inv [OF assms(2) run_inv_begin(1) run_inv_begin(2)]
  have inv: "run_inv (observed st) s" and bc: "l_batchCount s = b"
    by (simp_all add: run_inv_begin(3))
  have pb: "process_batch w s = ?s'" by (rule process_batch_raises [OF assms(4)])
  have inv': "run_inv (observed st) ?s'" by (rule run_inv_batch_error [OF inv assms(3)])
  have "batch_loop (b + Suc n) w ?s0 = batch_loop (Suc n) w s"
    by (rule batch_loop_after_batches [OF assms(2)])
  also have "\<dots> = batch_loop n w ?s'" using assms(3) pb by simp
  also have "\<dots> = Some ?s'" by (rule batch_loop_ended) simp
  finally have loop: "run_loop (Suc (b + n)) w (begin_run w st) = Some ?s'"
    by (simp add: run_loop_def)
  have run: "processVariantsInBackground (Suc (b + n)) w st
               = Some (Some (fst (finish w ?s')), snd (finish w ?s'))"
    using assms(1) loop
    by (simp add: processVariantsInBackground_def continue_run_def split_beta)
  have none: "filter is_batchError (l_errors s) = []"
    using inv assms(3) by (simp add: run_inv_def)
  have errs: "errors (variantUpdateProgress (server ?s')) = l_errors s @ [?info]"
    using inv' by (simp add: run_inv_def)
  have cb: "currentBatch (variantUpdateProgress (server ?s')) = Suc (l_batchCount s)"
    using inv' by (simp add: run_inv_def)
  have b: "b = l_batchCount s" using bc by simp
  have "r_batchCount (fst (finish w ?s')) = Suc (l_batchCount s)"
    and "currentBatch (variantUpdateProgress (snd (finish w ?s'))) = Suc (l_batchCount s)"
    and "errors (variantUpdateProgress (snd (finish w ?s'))) = l_errors s @ [?info]"
    and "filter is_batchError (errors (variantUpdateProgress (snd (finish w ?s')))) = [?info]"
    and "\<not> isProcessing (variantUpdateProgress (snd (finish w ?s')))"
    and "\<not> isRunning (snd (finish w ?s'))"
    and "completedAt (variantUpdateProgress (snd (finish w ?s'))) = Some (time_completed w)"
    and "map_option success (summary (variantUpdateProgress (snd (finish w ?s')))) = Some True"
    and "map_option sum_batchCount (summary (variantUpdateProgress (snd (finish w ?s'))))
           = Some (Some (Suc (l_batchCount s)))"
    and "map_option sum_message (summary (variantUpdateProgress (snd (finish w ?s'))))
           = Some (''Processed '' @ show_nat (l_processedVariants s)
                       @ '' variants across '' @ show_nat (Suc (l_batchCount s)) @ '' batches'')"
    using errs cb none by (simp_all add: finish_state)
  with run show ?thesis
    unfolding b by blast
qed

theorem batch_error_ends_run_witness:
  "\<not> isRunning idle_state
   \<and> after_batches 1 second_page_rejected
       (estimate_total second_page_rejected
          (initial_locals (begin_run second_page_rejected idle_state))) = Some before_second_batch
   \<and> l_hasNextPage before_second_batch
   \<and> batch_body second_page_rejected (enter_batch before_second_batch) = Inl (Error ''fetch failed'')
   \<and> (\<exists>r st'. processVariantsInBackground 2 second_page_rejected idle_state = Some (Some r, st')
         \<and> filter is_batchError (errors (variantUpdateProgress st'))
               = [BatchErrorInfo 2 ''fetch failed'']
         \<and> map_option success (summary (variantUpdateProgress st')) = Some True)"
proof -
  have h1: "\<not> isRunning idle_state" by (simp add: idle_state_def)
  have more: "l_hasNextPage (estimate_total second_page_rejected
          (initial_locals (begin_run second_page_rejected idle_state)))"
    by code_simp
  have h2: "after_batches 1 second_page_rejected
       (estimate_total second_page_rejected
          (initial_locals (begin_run second_page_rejected idle_state))) = Some before_second_batch"
    using more by (simp add: before_second_batch_def)
  have h3: "l_hasNextPage before_second_batch" by code_simp
  have h4: "batch_body second_page_rejected (enter_batch before_second_batch)
              = Inl (Error ''fetch failed'')"
    by code_simp
  from batch_error_ends_run [OF h1 h2 h3 h4, of 0]
  obtain r st' where "processVariantsInBackground 2 second_page_rejected idle_state = Some (Some r, st')"
    and "filter is_batchError (errors (variantUpdateProgress st')) = [BatchErrorInfo 2 ''fetch failed'']"
    and "map_option success (summary (variantUpdateProgress st')) = Some True"
    by (auto simp: numeral_2_eq_2)
  then show ?thesis using h1 h2 h3 h4 by blast
qed

theorem batch_error_summary_counterexample:
  "map_option summary (final_progress 3 second_page_rejected idle_state)
     = Some (Some \<lparr>success = True, sum_processedVariants = Some 2, sum_totalVariants = Some 6,
                   sum_batchCount = Some 2, sum_error = None,
                   sum_message = ''Processed 2 variants across 2 batches''\<rparr>)"
  by code_simp

text \<open>
  C9, evaluated where the code departs from it. The page of \<open>untracked_variant\<close> holds
  one variant without inventory item: a task is built for it all the same, the task ends
  in the \<open>catch\<close> of its body, and the run counts it and records an \<open>apiError\<close>.
\<close>

theorem task_built_for_untracked_variant:
  "variantPromises untracked_variant
      [\<lparr>variant_id = ''gid://shopify/ProductVariant/1'', inventoryItem = None\<rparr>]
     = [Fulfilled (ApiError ''gid://shopify/ProductVariant/1''
                     ''Cannot read properties of null (reading 'id')'')]
   \<and> map_option processedVariants (final_progress 1 untracked_variant idle_state) = Some 1
   \<and> map_option errors (final_progress 1 untracked_variant idle_state)
       = Some [ApiErrorInfo ''gid://shopify/ProductVariant/1''
                 ''Cannot read properties of null (reading 'id')'']"
  by code_simp

text \<open>
  C6. A start request that arrives while \<open>isRunning\<close> is set is answered with the
  message that the process is already running and leaves the whole server state as it
  was; a direct call of \<open>processVariantsInBackground\<close> returns at its guard, also without
  touching the state.
\<close>

theorem start_while_running_rejected:
  assumes "isRunning st"
  shows "action w StartSync st
           = (MessageJson False ''Process already running. Please wait for it to complete.'' None, st)
       \<and> processVariantsInBackground fuel w st = Some (None, st)"
  using assms by (simp add: action_def start_def processVariantsInBackground_def)

theorem start_while_running_rejected_witness:
  "isRunning (snd (action three_pages StartSync idle_state))
   \<and> action three_pages StartSync (snd (action three_pages StartSync idle_state))
       = (MessageJson False ''Process already running. Please wait for it to complete.'' None,
          snd (action three_pages StartSync idle_state))"
proof -
  have h: "isRunning (snd (action three_pages StartSync idle_state))"
    by (simp add: action_def start_def idle_state_def begin_run_def)
  from start_while_running_rejected [OF h] h show ?thesis by blast
qed

section \<open>The summary is handed out once\<close>








section \<open>The incremental update handler\<close>

lemma findIndex_None: "findIndex P xs = None \<longleftrightarrow> (\<forall>x \<in> set xs. \<not> P x)"
  by (induction xs) auto

lemma findIndex_Some:
  "findIndex P xs = Some i \<Longrightarrow> i < length xs \<and> P (xs ! i) \<and> (\<forall>j < i. \<not> P (xs ! j))"
proof (induction xs arbitrary: i)
  case Nil
  then show ?case by simp
next
  case (Cons x xs)
  show ?case
  proof (cases "P x")
    case True
    with Cons.prems show ?thesis by simp
  next
    case False
    with Cons.prems obtain k where k: "findIndex P xs = Some k" "i = Suc k" by auto
    from Cons.IH [OF k(1)] False k(2) show ?thesis
      by (auto simp: nth_Cons')
  qed
qed

lemma format_levels_empty_quantities:
  "\<exists>l \<in> set lv. quantities l = [] \<Longrightarrow> \<exists>m. format_levels parseInt10 now lv = Inl (TypeError m)"
proof (induction lv)
  case Nil
  then show ?case by simp
next
  case (Cons l lv)
  show ?case
  proof (cases "quantities l")
    case Nil
    then show ?thesis by simp
  next
    case (Cons q qs)
    with Cons.prems have "\<exists>l \<in> set lv. quantities l = []" by auto
    from Cons.IH [OF this] Cons show ?thesis by auto
  qed
qed

lemma format_levels_length:
  "format_levels parseInt10 now lv = Inr rs \<Longrightarrow> length rs = length lv"
  by (induction lv arbitrary: rs) (auto split: list.splits sum.splits)


lemma handler_not_empty:
  assumes "variant_query a (inventory_item_id pl) = Json errs (Some v)"
    and "iv_metafield v = Some mf" and "metafield_value mf \<noteq> []"
  shows "handleInventoryUpdate a pl =
           (case JSON_parse a (metafield_value mf) of
              Inl m \<Rightarrow> Inl (SyntaxError m)
            | Inr currentData \<Rightarrow>
                (case merge_update a pl currentData of
                   Inl e \<Rightarrow> Inl e
                 | Inr doc \<Rightarrow> write_snapshot a v doc))"
  using assms
  by (simp add: handleInventoryUpdate_def read_snapshot_def metafieldsEmpty_def split: sum.splits)

lemma handler_empty:
  assumes "variant_query a (inventory_item_id pl) = Json errs (Some v)"
    and "metafieldsEmpty v"
  shows "handleInventoryUpdate a pl =
           (case bootstrap a pl of
              Inl e \<Rightarrow> Inl e
            | Inr allLocations \<Rightarrow>
                (case (if length allLocations = 0 then merge_update a pl (Snapshot allLocations)
                       else Inr allLocations) of
                   Inl e \<Rightarrow> Inl e
                 | Inr doc \<Rightarrow> write_snapshot a v doc))"
  using assms
  by (simp add: handleInventoryUpdate_def read_snapshot_def split: sum.splits)

text \<open>
  C2 (as amended). A stored value that is absent or empty sends the handler to the
  bootstrap path. A stored value that is not empty and that \<open>JSON.parse\<close> rejects makes
  the handler raise the \<open>SyntaxError\<close> to its caller, which answers the notification
  with status 500; nothing is rebuilt.
\<close>

theorem unparseable_snapshot_raises:
  assumes "variant_query a (inventory_item_id pl) = Json errs (Some v)"
    and "iv_metafield v = Some mf" and "metafield_value mf \<noteq> []"
    and "JSON_parse a (metafield_value mf) = Inl m"
  shows "handleInventoryUpdate a pl = Inl (SyntaxError m)
       \<and> webhook_action (Authenticated (Some a) ''INVENTORY_LEVELS_UPDATE'') pl = 500
       \<and> (iv_metafield v0 = None \<or> (\<exists>mf0. iv_metafield v0 = Some mf0 \<and> metafield_value mf0 = [])
            \<longrightarrow> read_snapshot a pl v0 =
                  (case bootstrap a pl of
                     Inl e \<Rightarrow> Inl e
                   | Inr allLocations \<Rightarrow> Inr (Snapshot allLocations, allLocations)))"
proof -
  have h: "handleInventoryUpdate a pl = Inl (SyntaxError m)"
    using handler_not_empty [OF assms(1,2,3)] assms(4) by simp
  then have "webhook_action (Authenticated (Some a) ''INVENTORY_LEVELS_UPDATE'') pl = 500"
    by (simp add: webhook_action_def)
  moreover have "read_snapshot a pl v0 =
                  (case bootstrap a pl of
                     Inl e \<Rightarrow> Inl e
                   | Inr allLocations \<Rightarrow> Inr (Snapshot allLocations, allLocations))"
    if "iv_metafield v0 = None \<or> (\<exists>mf0. iv_metafield v0 = Some mf0 \<and> metafield_value mf0 = [])"
    using that by (auto simp: read_snapshot_def metafieldsEmpty_def)
  ultimately show ?thesis using h by blast
qed

theorem unparseable_snapshot_raises_witness:
  "variant_query corrupted (inventory_item_id notification)
     = Json None (Some \<lparr>iv_id = ''gid://shopify/ProductVariant/1'',
          iv_metafield = Some \<lparr>metafield_id = ''gid://shopify/Metafield/1'',
                                metafield_value = ''{bad''\<rparr>\<rparr>)
   \<and> JSON_parse corrupted ''{bad'' = Inl ''Unexpected token''
   \<and> handleInventoryUpdate corrupted notification = Inl (SyntaxError ''Unexpected token'')
   \<and> webhook_action (Authenticated (Some corrupted) ''INVENTORY_LEVELS_UPDATE'') notification = 500"
proof -
  let ?mf = "\<lparr>metafield_id = ''gid://shopify/Metafield/1'', metafield_value = ''{bad''\<rparr>"
  let ?v = "\<lparr>iv_id = ''gid://shopify/ProductVariant/1'', iv_metafield = Some ?mf\<rparr>"
  have h1: "variant_query corrupted (inventory_item_id notification) = Json None (Some ?v)"
    by (simp add: corrupted_def)
  have h2: "iv_metafield ?v = Some ?mf" by simp
  have h3: "metafield_value ?mf \<noteq> []" by simp
  have h4: "JSON_parse corrupted (metafield_value ?mf) = Inl ''Unexpected token''"
    by (simp add: corrupted_def stocked_def stored_text_def)
  from unparseable_snapshot_raises [OF h1 h2 h3 h4] h1 h4
  show ?thesis by simp
qed

theorem unparseable_not_absent_counterexample:
  "handleInventoryUpdate corrupted notification = Inl (SyntaxError ''Unexpected token'')
   \<and> handleInventoryUpdate nothing_stored notification
       = Inr [\<lparr>loc_id = JNumber 7, loc_name = ''A'', loc_available = 4, loc_updatedAt = 20\<rparr>,
              \<lparr>loc_id = JNumber 8, loc_name = ''B'', loc_available = 0, loc_updatedAt = 20\<rparr>]"
  by code_simp

text \<open>
  C4. When the stored snapshot parses to \<open>m\<close> records, the snapshot the handler hands to
  the write is: the stored one with the first record whose \<open>id\<close> is the notified location
  replaced by the merged record (length \<open>m\<close>), when there is such a record; the stored one
  with the merged record appended (length \<open>m + 1\<close>) otherwise. The merged record carries
  \<open>parseInt(available, 10) || 0\<close> (the whole number \<open>parseInt\<close> returns, and \<open>0\<close> when it
  gives \<open>NaN\<close>) and the reading of the clock at the merge.
\<close>

theorem merge_replaces_or_appends:
  assumes "variant_query a (inventory_item_id pl) = Json errs (Some v)"
    and "iv_metafield v = Some mf" and "metafield_value mf \<noteq> []"
    and "JSON_parse a (metafield_value mf) = Inr (Snapshot locs)"
    and "location_query a (location_id pl) = Json lerrs location"
  shows "\<exists>doc. handleInventoryUpdate a pl = write_snapshot a v doc
           \<and> (if \<exists>loc \<in> set locs. loc_id loc = JNumber (location_id pl)
               then length doc = length locs
                    \<and> (\<exists>i < length locs. loc_id (locs ! i) = JNumber (location_id pl)
                          \<and> (\<forall>j < i. loc_id (locs ! j) \<noteq> JNumber (location_id pl))
                          \<and> doc = locs[i := updatedLocation a pl location])
               else length doc = length locs + 1
                    \<and> doc = locs @ [updatedLocation a pl location])
           \<and> (\<forall>n. parseInt a (available pl) = Some n \<longrightarrow>
                  loc_available (updatedLocation a pl location) = n)
           \<and> (parseInt a (available pl) = None \<longrightarrow> loc_available (updatedLocation a pl location) = 0)
           \<and> loc_updatedAt (updatedLocation a pl location) = time_merge a"
proof -
  let ?P = "\<lambda>loc. loc_id loc = JNumber (location_id pl)"
  let ?u = "updatedLocation a pl location"
  have rec: "\<forall>n. parseInt a (available pl) = Some n \<longrightarrow> loc_available ?u = n"
    "parseInt a (available pl) = None \<longrightarrow> loc_available ?u = 0"
    "loc_updatedAt ?u = time_merge a"
    by (simp_all add: updatedLocation_def)
  show ?thesis
  proof (cases "findIndex ?P locs")
    case None
    then have no: "\<not> (\<exists>loc \<in> set locs. ?P loc)" by (simp add: findIndex_None)
    have "handleInventoryUpdate a pl = write_snapshot a v (locs @ [?u])"
      using handler_not_empty [OF assms(1,2,3)] assms(4,5) None
      by (simp add: merge_update_def)
    with no rec show ?thesis by (intro exI [of _ "locs @ [?u]"]) simp
  next
    case (Some i)
    from findIndex_Some [OF Some]
    have i: "i < length locs" "?P (locs ! i)" "\<forall>j < i. \<not> ?P (locs ! j)" by simp_all
    then have yes: "\<exists>loc \<in> set locs. ?P loc" by (auto intro: nth_mem)
    have "handleInventoryUpdate a pl = write_snapshot a v (locs[i := ?u])"
      using handler_not_empty [OF assms(1,2,3)] assms(4,5) Some
      by (simp add: merge_update_def)
    moreover have "\<exists>k < length locs. loc_id (locs ! k) = JNumber (location_id pl)
                          \<and> (\<forall>j < k. loc_id (locs ! j) \<noteq> JNumber (location_id pl))
                          \<and> locs[i := ?u] = locs[k := ?u]"
      using i by (intro exI [of _ i]) simp
    ultimately show ?thesis
      using yes rec by (intro exI [of _ "locs[i := ?u]"]) simp
  qed
qed

theorem merge_replaces_or_appends_witness:
  "variant_query stocked (inventory_item_id notification)
     = Json None (Some \<lparr>iv_id = ''gid://shopify/ProductVariant/1'',
          iv_metafield = Some \<lparr>metafield_id = ''gid://shopify/Metafield/1'',
                                metafield_value = stored_text\<rparr>\<rparr>)
   \<and> stored_text \<noteq> []
   \<and> JSON_parse stocked stored_text
       = Inr (Snapshot [\<lparr>loc_id = JNumber 7, loc_name = ''A'', loc_available = 3, loc_updatedAt = 0\<rparr>])
   \<and> location_query stocked (location_id notification) = Json None (Some ''A'')
   \<and> handleInventoryUpdate stocked notification
       = Inr [\<lparr>loc_id = JNumber 7, loc_name = ''A'', loc_available = 12, loc_updatedAt = 21\<rparr>]"
proof -
  let ?mf = "\<lparr>metafield_id = ''gid://shopify/Metafield/1'', metafield_value = stored_text\<rparr>"
  let ?v = "\<lparr>iv_id = ''gid://shopify/ProductVariant/1'', iv_metafield = Some ?mf\<rparr>"
  let ?locs = "[\<lparr>loc_id = JNumber 7, loc_name = ''A'', loc_available = 3, loc_updatedAt = 0\<rparr>]"
  have h1: "variant_query stocked (inventory_item_id notification) = Json None (Some ?v)"
    by (simp add: stocked_def)
  have h2: "iv_metafield ?v = Some ?mf" by simp
  have ne: "stored_text \<noteq> []" by (simp add: stored_text_def)
  then have h3: "metafield_value ?mf \<noteq> []" by simp
  have h4: "JSON_parse stocked (metafield_value ?mf) = Inr (Snapshot ?locs)"
    by (simp add: stocked_def)
  have h5: "location_query stocked (location_id notification) = Json None (Some ''A'')"
    by (simp add: stocked_def)
  have u: "updatedLocation stocked notification (Some ''A'')
             = \<lparr>loc_id = JNumber 7, loc_name = ''A'', loc_available = 12, loc_updatedAt = 21\<rparr>"
    by code_simp
  have w: "write_snapshot stocked ?v doc = Inr doc" for doc
    by (simp add: write_snapshot_def stocked_def)
  have lid: "location_id notification = 7" by (simp add: notification_def)
  from merge_replaces_or_appends [OF h1 h2 h3 h4 h5]
  have "handleInventoryUpdate stocked notification
          = Inr [\<lparr>loc_id = JNumber 7, loc_name = ''A'', loc_available = 12, loc_updatedAt = 21\<rparr>]"
    unfolding u w lid by auto
  with h1 ne h4 h5 show ?thesis by simp
qed

text \<open>
  C10. In the bootstrap path the arguments of the two \<open>console.log\<close> calls read
  \<open>edges[0].node\<close> and \<open>edges[1].node\<close>, and the formatting reads \<open>quantities[0].quantity\<close>
  of every level: when the item has fewer than two levels, or a level whose \<open>quantities\<close>
  is empty, the handler raises and writes nothing. The exception is a \<open>TypeError\<close>
  whenever there are fewer than two levels, and also when the answer has no \<open>errors\<close>
  member.
\<close>

theorem bootstrap_raises_on_short_levels:
  assumes "variant_query a (inventory_item_id pl) = Json errs (Some v)"
    and "metafieldsEmpty v"
    and "levels_query a (inventory_item_id pl) = Json lerrs (Some lv)"
    and "length lv < 2 \<or> (\<exists>l \<in> set lv. quantities l = [])"
  shows "\<exists>e. handleInventoryUpdate a pl = Inl e \<and> bootstrap a pl = Inl e
           \<and> (length lv < 2 \<or> lerrs = None \<longrightarrow> (\<exists>m. e = TypeError m))"
proof -
  have "\<exists>e. bootstrap a pl = Inl e \<and> (length lv < 2 \<or> lerrs = None \<longrightarrow> (\<exists>m. e = TypeError m))"
  proof (cases "length lv < 2")
    case True
    then show ?thesis using assms(3) by (auto simp: bootstrap_def)
  next
    case False
    with assms(4) have "\<exists>l \<in> set lv. quantities l = []" by simp
    from format_levels_empty_quantities [OF this, of "parseInt a" "time_bootstrap a"]
    obtain m where "format_levels (parseInt a) (time_bootstrap a) lv = Inl (TypeError m)" by blast
    then show ?thesis using assms(3) False by (auto simp: bootstrap_def)
  qed
  then obtain e where e: "bootstrap a pl = Inl e"
    "length lv < 2 \<or> lerrs = None \<longrightarrow> (\<exists>m. e = TypeError m)" by blast
  have "handleInventoryUpdate a pl = Inl e"
    using handler_empty [OF assms(1,2)] e(1) by simp
  with e show ?thesis by blast
qed

theorem bootstrap_raises_on_short_levels_witness:
  "variant_query empty_quantities (inventory_item_id notification)
     = Json None (Some \<lparr>iv_id = ''gid://shopify/ProductVariant/1'', iv_metafield = None\<rparr>)
   \<and> metafieldsEmpty \<lparr>iv_id = ''gid://shopify/ProductVariant/1'', iv_metafield = None\<rparr>
   \<and> levels_query empty_quantities (inventory_item_id notification)
       = Json None (Some
           [\<lparr>quantities = [Some 4], location_gid = ''gid://shopify/Location/7'', location_name = ''A''\<rparr>,
            \<lparr>quantities = [], location_gid = ''gid://shopify/Location/8'', location_name = ''B''\<rparr>])
   \<and> (\<exists>m. handleInventoryUpdate empty_quantities notification = Inl (TypeError m))"
proof -
  let ?v = "\<lparr>iv_id = ''gid://shopify/ProductVariant/1'', iv_metafield = None\<rparr>"
  let ?lv = "[\<lparr>quantities = [Some 4], location_gid = ''gid://shopify/Location/7'', location_name = ''A''\<rparr>,
            \<lparr>quantities = [], location_gid = ''gid://shopify/Location/8'', location_name = ''B''\<rparr>]"
  have h1: "variant_query empty_quantities (inventory_item_id notification) = Json None (Some ?v)"
    by (simp add: empty_quantities_def nothing_stored_def)
  have h2: "metafieldsEmpty ?v" by (simp add: metafieldsEmpty_def)
  have h3: "levels_query empty_quantities (inventory_item_id notification) = Json None (Some ?lv)"
    by (simp add: empty_quantities_def)
  have h4: "length ?lv < 2 \<or> (\<exists>l \<in> set ?lv. quantities l = [])" by simp
  from bootstrap_raises_on_short_levels [OF h1 h2 h3 h4]
  have "\<exists>m. handleInventoryUpdate empty_quantities notification = Inl (TypeError m)" by auto
  with h1 h2 h3 show ?thesis by blast
qed

text \<open>
  C5, evaluated where the code departs from it. With nothing stored and no inventory
  level, the rebuilt list would be empty and the merge would follow; with one level the
  rebuilt list would have one record and would be written. In both cases the handler
  raises at the \<open>console.log\<close> calls instead. With two levels or more the rebuilt list is
  written as it is, without the merge.
\<close>

theorem bootstrap_with_few_levels_raises:
  "handleInventoryUpdate no_levels notification
     = Inl (TypeError ''Cannot read properties of undefined (reading 'node')'')
   \<and> handleInventoryUpdate one_level notification
       = Inl (TypeError ''Cannot read properties of undefined (reading 'node')'')
   \<and> handleInventoryUpdate nothing_stored notification
       = Inr [\<lparr>loc_id = JNumber 7, loc_name = ''A'', loc_available = 4, loc_updatedAt = 20\<rparr>,
              \<lparr>loc_id = JNumber 8, loc_name = ''B'', loc_available = 0, loc_updatedAt = 20\<rparr>]"
  by code_simp

theorem bootstrap_with_few_levels_raises_witness:
  "isl (handleInventoryUpdate no_levels notification)
   \<and> isl (handleInventoryUpdate one_level notification)
   \<and> length (projr (handleInventoryUpdate nothing_stored notification)) = 2"
  using bootstrap_with_few_levels_raises by simp

lemma bootstrap_baseline_written:
  assumes "variant_query a (inventory_item_id pl) = Json errs (Some v)"
    and "metafieldsEmpty v"
    and "bootstrap a pl = Inr allLocations"
  shows "allLocations \<noteq> [] \<and> handleInventoryUpdate a pl = write_snapshot a v allLocations"
proof -
  from assms(3) have "length allLocations \<ge> 2"
    by (auto simp: bootstrap_def split: graphql.splits option.splits if_splits
             dest: format_levels_length)
  then show ?thesis
    using handler_empty [OF assms(1,2)] assms(3) by auto
qed

end
